theory Spec2Isabelle
  imports Main "HOL-Library.AList" "HOL-Library.Sublist"
begin

section \<open>Python values\<close>

text \<open>
  Strings are Isabelle strings (lists of 8-bit characters), so the model follows Python on
  ASCII text. An exception is a value: \<open>ClickException msg\<close> is click's user-facing fatal
  error, \<open>PyException cls msg\<close> any other exception, with its class name and \<open>str(e)\<close>.
  Diagnostics (the loguru logger and the progress lines that \<open>click.echo(..., err=True)\<close>
  sends to the error stream) are not part of the model.
\<close>

datatype exn = ClickException string | PyException string string

fun str_exn :: "exn \<Rightarrow> string" where
  "str_exn (ClickException msg) = msg"
| "str_exn (PyException cls msg) = msg"

definition newline :: char where
  "newline = CHR 0x0A"

definition backslash :: char where
  "backslash = CHR 0x5C"

text \<open>\<open>sep.join(xs)\<close>.\<close>

fun join :: "string \<Rightarrow> string list \<Rightarrow> string" where
  "join sep [] = []"
| "join sep [x] = x"
| "join sep (x # y # ys) = x @ sep @ join sep (y # ys)"

text \<open>\<open>s.startswith(p)\<close>.\<close>

definition startswith :: "string \<Rightarrow> string \<Rightarrow> bool" where
  "startswith s p = prefix p s"

section \<open>The OCR response\<close>

text \<open>
  \<open>response_dict\<close> is the dictionary parsed from the service's JSON. The code reads five
  keys of it, each through \<open>.get(key, default)\<close> or behind a \<open>key in dict\<close> test, so each is
  an optional field: \<open>None\<close> is a missing key, and a present key holds a value of the type
  the service's schema gives it. For the key \<open>image_base64\<close> that type is a string or the
  JSON \<open>null\<close>, which the service sends for an image without data.
\<close>

datatype json_string = JNull | JString string

record image =
  image_id :: "string option"
  image_base64 :: "json_string option"

record page =
  markdown :: "string option"
  images :: "image list option"

record response =
  pages :: "page list option"

text \<open>
  A Python \<open>dict\<close> of strings, in insertion order: an association list whose keys are
  distinct; \<open>d[k] = v\<close> is \<^const>\<open>AList.update\<close>, which overwrites in place or appends.
\<close>

type_synonym image_map = "(string \<times> string) list"

section \<open>Regular-expression substitution\<close>

text \<open>
  \<open>re.sub(r"!\[(.*?)\]\(" + re.escape(img_id) + r"\)", repl, text)\<close>. The pattern is the two
  characters \<open>![\<close>, a lazy group of characters other than the line feed, and the literal
  text \<open>](\<close>, \<open>img_id\<close>, \<open>)\<close> (\<open>re.escape\<close> makes every character of the identifier match
  itself). The lazy group takes the fewest characters that let the rest match.
\<close>

fun lazy_dot_star :: "string \<Rightarrow> string \<Rightarrow> string \<Rightarrow> (string \<times> string) option" where
  "lazy_dot_star lit acc [] = (if prefix lit [] then Some (acc, []) else None)"
| "lazy_dot_star lit acc (c # cs) =
     (if prefix lit (c # cs) then Some (acc, drop (length lit) (c # cs))
      else if c = newline then None
      else lazy_dot_star lit (acc @ [c]) cs)"

text \<open>A match at the start of \<open>s\<close>: group 1 and the text after the match.\<close>

definition re_match :: "string \<Rightarrow> string \<Rightarrow> (string \<times> string) option" where
  "re_match img_id s =
     (if prefix ''!['' s then lazy_dot_star ('']('' @ img_id @ '')'') [] (drop 2 s) else None)"

text \<open>
  The replacement string is a template: \<open>re\<close> parses it (\<open>re._parser.parse_template\<close>) into
  literal characters and group references before it looks for a match, and raises on a
  malformed escape whether or not the pattern matches. The pattern has one group and no
  named group. The text of the error messages, which carries positions, is shortened.
\<close>

datatype titem = Literal char | Group nat

definition re_error :: "string \<Rightarrow> exn" where
  "re_error msg = PyException ''re.error'' msg"

definition is_digit :: "char \<Rightarrow> bool" where
  "is_digit c = (c \<in> set ''0123456789'')"

definition is_octdigit :: "char \<Rightarrow> bool" where
  "is_octdigit c = (c \<in> set ''01234567'')"

definition is_ascii_letter :: "char \<Rightarrow> bool" where
  "is_ascii_letter c =
     (c \<in> set ''abcdefghijklmnopqrstuvwxyzABCDEFGHIJKLMNOPQRSTUVWXYZ'')"

text \<open>\<open>name.isidentifier()\<close>, on ASCII.\<close>

definition is_identifier :: "string \<Rightarrow> bool" where
  "is_identifier name =
     (name \<noteq> [] \<and> \<not> is_digit (hd name)
      \<and> list_all (\<lambda>c. is_ascii_letter c \<or> is_digit c \<or> c = CHR ''_'') name)"

definition digit_val :: "char \<Rightarrow> nat" where
  "digit_val c = of_char c - 48"

text \<open>\<open>int(name)\<close> for a string of decimal digits.\<close>

definition int_of_digits :: "string \<Rightarrow> nat" where
  "int_of_digits ds = foldl (\<lambda>n d. 10 * n + digit_val d) 0 ds"

text \<open>The table \<open>ESCAPES\<close>: \<open>\a \b \f \n \r \t \v \\\<close>.\<close>

definition ESCAPES :: "char \<Rightarrow> char option" where
  "ESCAPES c =
     (if c = CHR ''a'' then Some (CHR 0x07)
      else if c = CHR ''b'' then Some (CHR 0x08)
      else if c = CHR ''f'' then Some (CHR 0x0C)
      else if c = CHR ''n'' then Some (CHR 0x0A)
      else if c = CHR ''r'' then Some (CHR 0x0D)
      else if c = CHR ''t'' then Some (CHR 0x09)
      else if c = CHR ''v'' then Some (CHR 0x0B)
      else if c = backslash then Some backslash
      else None)"

definition lappend :: "string \<Rightarrow> exn + titem list \<Rightarrow> exn + titem list" where
  "lappend s r = (case r of Inl e \<Rightarrow> Inl e | Inr items \<Rightarrow> Inr (map Literal s @ items))"

definition addgroup :: "nat \<Rightarrow> exn + titem list \<Rightarrow> exn + titem list" where
  "addgroup index r =
     (if index > 1 then Inl (re_error ''invalid group reference'')
      else (case r of Inl e \<Rightarrow> Inl e | Inr items \<Rightarrow> Inr (Group index # items)))"

function parse_template :: "string \<Rightarrow> exn + titem list" where
  "parse_template [] = Inr []"
| "parse_template (c # cs) =
     (if c \<noteq> backslash then lappend [c] (parse_template cs)
      else (case cs of
          [] \<Rightarrow> Inl (re_error ''bad escape (end of pattern)'')
        | e # rest \<Rightarrow>
            if e = CHR ''g'' then
              (if \<not> prefix ''<'' rest then Inl (re_error ''missing <'')
               else let name = takeWhile (\<lambda>x. x \<noteq> CHR ''>'') (tl rest);
                        after = dropWhile (\<lambda>x. x \<noteq> CHR ''>'') (tl rest)
                    in if after = [] then Inl (re_error ''missing >, unterminated name'')
                       else if name = [] then Inl (re_error ''missing group name'')
                       else if \<not> list_all is_digit name then
                         (if is_identifier name
                          then Inl (PyException ''IndexError'' ''unknown group name'')
                          else Inl (re_error ''bad character in group name''))
                       else addgroup (int_of_digits name) (parse_template (tl after)))
            else if e = CHR ''0'' then
              (case rest of
                 [] \<Rightarrow> lappend [char_of (0::nat)] (parse_template rest)
               | d1 # r1 \<Rightarrow>
                   if \<not> is_octdigit d1 then lappend [char_of (0::nat)] (parse_template rest)
                   else (case r1 of
                       [] \<Rightarrow> lappend [char_of (digit_val d1)] (parse_template r1)
                     | d2 # r2 \<Rightarrow>
                         if \<not> is_octdigit d2 then lappend [char_of (digit_val d1)] (parse_template r1)
                         else lappend [char_of ((8 * digit_val d1 + digit_val d2) mod 256)]
                                (parse_template r2)))
            else if is_digit e then
              (case rest of
                 [] \<Rightarrow> addgroup (digit_val e) (parse_template rest)
               | d1 # r1 \<Rightarrow>
                   if \<not> is_digit d1 then addgroup (digit_val e) (parse_template rest)
                   else (case r1 of
                       [] \<Rightarrow> addgroup (10 * digit_val e + digit_val d1) (parse_template r1)
                     | d2 # r2 \<Rightarrow>
                         if is_octdigit e \<and> is_octdigit d1 \<and> is_octdigit d2 then
                           (if 64 * digit_val e + 8 * digit_val d1 + digit_val d2 > 255
                            then Inl (re_error ''octal escape value outside of range 0-0o377'')
                            else lappend [char_of (64 * digit_val e + 8 * digit_val d1 + digit_val d2)]
                                   (parse_template r2))
                         else addgroup (10 * digit_val e + digit_val d1) (parse_template r1)))
            else (case ESCAPES e of
                Some ch \<Rightarrow> lappend [ch] (parse_template rest)
              | None \<Rightarrow>
                  if is_ascii_letter e then Inl (re_error ''bad escape'')
                  else lappend [c, e] (parse_template rest))))"
  by pat_completeness auto
termination
proof (relation "measure length")
  fix c :: char and cs x21 x22 x xa
  assume "cs = x21 # x22" "x = takeWhile (\<lambda>x. x \<noteq> CHR ''>'') (tl x22)"
    "xa = dropWhile (\<lambda>x. x \<noteq> CHR ''>'') (tl x22)"
  have "length (tl (dropWhile (\<lambda>x. x \<noteq> CHR ''>'') (tl x22))) \<le> length x22"
    by (metis diff_le_self le_trans length_dropWhile_le length_tl)
  then show "(tl xa, c # cs) \<in> measure length"
    using \<open>cs = x21 # x22\<close> \<open>xa = _\<close> by simp
qed auto

text \<open>\<open>match.expand\<close>: group 0 is the whole match, group 1 the alt text.\<close>

fun expand_template :: "titem list \<Rightarrow> string \<Rightarrow> string \<Rightarrow> string" where
  "expand_template [] g0 g1 = []"
| "expand_template (Literal c # items) g0 g1 = c # expand_template items g0 g1"
| "expand_template (Group n # items) g0 g1 =
     (if n = 0 then g0 else g1) @ expand_template items g0 g1"

lemma lazy_dot_star_shorter:
  "lazy_dot_star lit acc s = Some (g, rest) \<Longrightarrow> length rest \<le> length s"
  by (induction lit acc s rule: lazy_dot_star.induct) (auto split: if_splits)

lemma re_match_shorter:
  "re_match img_id s = Some (g, rest) \<Longrightarrow> length rest < length s"
  unfolding re_match_def
  by (cases s; cases "tl s") (auto split: if_splits dest!: lazy_dot_star_shorter)

text \<open>The scan of \<open>re.sub\<close>: leftmost matches, left to right, none overlapping.\<close>

function sub_all :: "string \<Rightarrow> titem list \<Rightarrow> string \<Rightarrow> string" where
  "sub_all img_id t [] = []"
| "sub_all img_id t (c # cs) =
     (case re_match img_id (c # cs) of
        None \<Rightarrow> c # sub_all img_id t cs
      | Some (g1, rest) \<Rightarrow>
          expand_template t (take (length (c # cs) - length rest) (c # cs)) g1
            @ sub_all img_id t rest)"
  by pat_completeness auto
termination
  by (relation "measure (\<lambda>(img_id, t, s). length s)") (auto dest: re_match_shorter)

definition re_sub :: "string \<Rightarrow> string \<Rightarrow> string \<Rightarrow> exn + string" where
  "re_sub img_id repl text =
     (case parse_template repl of
        Inl e \<Rightarrow> Inl e
      | Inr t \<Rightarrow> Inr (sub_all img_id t text))"

section \<open>Content assembly\<close>

text \<open>
  The two library calls of the assembler, \<open>json.dumps(response_dict, indent=4)\<close> and
  \<open>markdown.Markdown(extensions=["tables"]).convert\<close>, are parameters.
\<close>

record library =
  json_dumps :: "response \<Rightarrow> string"
  md_convert :: "string \<Rightarrow> string"

definition html_head :: string where
  "html_head =
     ''<!DOCTYPE html>\<newline><html>\<newline><head>\<newline>''
     @ ''    <meta charset=\"UTF-8\">\<newline>''
     @ ''    <meta name=\"viewport\" content=\"width=device-width, initial-scale=1.0\">\<newline>''
     @ ''    <title>OCR Result</title>\<newline>''
     @ ''    <style>\<newline>''
     @ ''        body { \<newline>''
     @ ''            font-family: Arial, sans-serif;\<newline>''
     @ ''            line-height: 1.6;\<newline>''
     @ ''            margin: 0 auto;\<newline>''
     @ ''            max-width: 800px;\<newline>''
     @ ''            padding: 20px;\<newline>''
     @ ''        }\<newline>''
     @ ''        img { max-width: 100%; height: auto; }\<newline>''
     @ ''        h1, h2, h3 { margin-top: 1.5em; }\<newline>''
     @ ''        p { margin: 1em 0; }\<newline>''
     @ ''    </style>\<newline>''
     @ ''</head>\<newline><body>\<newline>''"

definition html_tail :: string where
  "html_tail = ''\<newline></body>\<newline></html>''"

definition generate_html_content :: "library \<Rightarrow> string \<Rightarrow> string" where
  "generate_html_content lib markdown_text = html_head @ md_convert lib markdown_text @ html_tail"

text \<open>\<open>page.get("markdown", "")\<close> and \<open>response_dict.get("pages", [])\<close>.\<close>

definition page_markdown :: "page \<Rightarrow> string" where
  "page_markdown p = (case markdown p of None \<Rightarrow> '''' | Some m \<Rightarrow> m)"

definition response_pages :: "response \<Rightarrow> page list" where
  "response_pages r = (case pages r of None \<Rightarrow> [] | Some ps \<Rightarrow> ps)"

definition markdown_contents :: "response \<Rightarrow> string list" where
  "markdown_contents r = map page_markdown (response_pages r)"

definition markdown_body :: "response \<Rightarrow> string" where
  "markdown_body r = join [newline, newline] (markdown_contents r)"

text \<open>The replacement string \<open>r"![\1](" + img_src + r")"\<close>.\<close>

definition replacement :: "string \<Rightarrow> string" where
  "replacement img_src = ''!['' @ [backslash, CHR ''1''] @ '']('' @ img_src @ '')''"

text \<open>The loop over \<open>image_map.items()\<close>.\<close>

fun substitute_images :: "image_map \<Rightarrow> string \<Rightarrow> exn + string" where
  "substitute_images [] markdown_text = Inr markdown_text"
| "substitute_images ((img_id, img_src) # entries) markdown_text =
     (case re_sub img_id (replacement img_src) markdown_text of
        Inl e \<Rightarrow> Inl e
      | Inr markdown_text' \<Rightarrow> substitute_images entries markdown_text')"

definition generate_output_content ::
  "library \<Rightarrow> response \<Rightarrow> string \<Rightarrow> image_map \<Rightarrow> exn + string" where
  "generate_output_content lib response_dict output_format image_map =
     (if output_format = ''json'' then Inr (json_dumps lib response_dict)
      else (case substitute_images image_map (markdown_body response_dict) of
          Inl e \<Rightarrow> Inl e
        | Inr markdown_text \<Rightarrow>
            if output_format = ''html'' then Inr (generate_html_content lib markdown_text)
            else Inr markdown_text))"

section \<open>Inline image references\<close>

text \<open>\<open>s.split(sep)\<close> for a separator of one character, and \<open>s.lower()\<close> on ASCII.\<close>

fun str_split :: "char \<Rightarrow> string \<Rightarrow> string list" where
  "str_split sep [] = [[]]"
| "str_split sep (c # cs) =
     (if c = sep then [] # str_split sep cs
      else (c # hd (str_split sep cs)) # tl (str_split sep cs))"

definition lower_char :: "char \<Rightarrow> char" where
  "lower_char c =
     (if c \<in> set ''ABCDEFGHIJKLMNOPQRSTUVWXYZ'' then char_of (of_char c + (32::nat)) else c)"

definition str_lower :: "string \<Rightarrow> string" where
  "str_lower s = map lower_char s"

text \<open>\<open>page.get("images", [])\<close>.\<close>

definition page_images :: "page \<Rightarrow> image list" where
  "page_images p = (case images p of None \<Rightarrow> [] | Some imgs \<Rightarrow> imgs)"

text \<open>The value stored for an image with both keys (lines 153 to 156).\<close>

definition inline_image_data :: "string \<Rightarrow> string \<Rightarrow> string" where
  "inline_image_data img_id image_data =
     (if \<not> startswith image_data ''data:'' then
        (let ext = (if CHR ''.'' \<in> set img_id then str_lower (last (str_split (CHR ''.'') img_id))
                    else ''jpeg'');
             mime_type = ''image/'' @ ext
         in ''data:'' @ mime_type @ '';base64,'' @ image_data)
      else image_data)"

text \<open>
  \<open>image_data.startswith(...)\<close> on the value \<open>None\<close> (the quotes of the message are left
  out).
\<close>

definition attribute_error :: exn where
  "attribute_error =
     PyException ''AttributeError'' ''NoneType object has no attribute startswith''"

text \<open>
  One image of the loop. Both keys are tested for presence only; the data is then used as
  a string, and \<open>null\<close> makes line 153 raise.
\<close>

definition inline_image :: "image \<Rightarrow> image_map \<Rightarrow> exn + image_map" where
  "inline_image img image_map =
     (case image_id img of
        None \<Rightarrow> Inr image_map
      | Some img_id \<Rightarrow>
          (case image_base64 img of
             None \<Rightarrow> Inr image_map
           | Some JNull \<Rightarrow> Inl attribute_error
           | Some (JString image_data) \<Rightarrow>
               Inr (AList.update img_id (inline_image_data img_id image_data) image_map)))"

fun inline_images_loop :: "image list \<Rightarrow> image_map \<Rightarrow> exn + image_map" where
  "inline_images_loop [] image_map = Inr image_map"
| "inline_images_loop (img # imgs) image_map =
     (case inline_image img image_map of
        Inl e \<Rightarrow> Inl e
      | Inr image_map' \<Rightarrow> inline_images_loop imgs image_map')"

fun inline_pages_loop :: "page list \<Rightarrow> image_map \<Rightarrow> exn + image_map" where
  "inline_pages_loop [] image_map = Inr image_map"
| "inline_pages_loop (p # ps) image_map =
     (case inline_images_loop (page_images p) image_map of
        Inl e \<Rightarrow> Inl e
      | Inr image_map' \<Rightarrow> inline_pages_loop ps image_map')"

section \<open>Base64\<close>

text \<open>
  Python \<open>bytes\<close> are lists of characters. \<open>base64.b64encode\<close> is the encoding of RFC 4648
  with padding. \<open>base64.b64decode(s)\<close> on a string refuses non-ASCII text and otherwise is
  \<open>binascii.a2b_base64\<close> in its lenient mode, which skips every character outside the
  alphabet, stops at the padding that completes a group, and raises on an incomplete
  group. In the decoder a left shift is a multiplication, a right shift a division and a
  mask a remainder; the two operands of each \<open>|\<close> have no bit in common, so it is a sum.
\<close>

type_synonym bytes = "char list"

definition b64_alphabet :: string where
  "b64_alphabet = ''ABCDEFGHIJKLMNOPQRSTUVWXYZabcdefghijklmnopqrstuvwxyz0123456789+/''"

definition table_b2a_base64 :: "nat \<Rightarrow> char" where
  "table_b2a_base64 n = b64_alphabet ! n"

definition table_a2b_base64 :: "char \<Rightarrow> nat option" where
  "table_a2b_base64 c =
     (if c \<in> set b64_alphabet then Some (length (takeWhile (\<lambda>x. x \<noteq> c) b64_alphabet))
      else None)"

fun b64encode :: "bytes \<Rightarrow> string" where
  "b64encode [] = []"
| "b64encode [a] =
     [table_b2a_base64 (of_char a div 4), table_b2a_base64 (of_char a mod 4 * 16),
      CHR ''='', CHR ''='']"
| "b64encode [a, b] =
     [table_b2a_base64 (of_char a div 4),
      table_b2a_base64 (of_char a mod 4 * 16 + of_char b div 16),
      table_b2a_base64 (of_char b mod 16 * 4), CHR ''='']"
| "b64encode (a # b # c # bs) =
     [table_b2a_base64 (of_char a div 4),
      table_b2a_base64 (of_char a mod 4 * 16 + of_char b div 16),
      table_b2a_base64 (of_char b mod 16 * 4 + of_char c div 64),
      table_b2a_base64 (of_char c mod 64)] @ b64encode bs"

definition binascii_error :: "string \<Rightarrow> exn" where
  "binascii_error msg = PyException ''binascii.Error'' msg"

fun a2b_base64_loop :: "nat \<Rightarrow> nat \<Rightarrow> nat \<Rightarrow> bytes \<Rightarrow> string \<Rightarrow> exn + bytes" where
  "a2b_base64_loop quad_pos leftchar pads bin_data [] =
     (if quad_pos \<noteq> 0 then
        (if quad_pos = 1
         then Inl (binascii_error ''Invalid base64-encoded string'')
         else Inl (binascii_error ''Incorrect padding''))
      else Inr bin_data)"
| "a2b_base64_loop quad_pos leftchar pads bin_data (this_ch # ascii_data) =
     (if this_ch = CHR ''='' then
        (if quad_pos \<ge> 2 \<and> quad_pos + (pads + 1) \<ge> 4 then Inr bin_data
         else a2b_base64_loop quad_pos leftchar (if quad_pos \<ge> 2 then pads + 1 else pads)
                bin_data ascii_data)
      else (case table_a2b_base64 this_ch of
          None \<Rightarrow> a2b_base64_loop quad_pos leftchar pads bin_data ascii_data
        | Some v \<Rightarrow>
            if quad_pos = 0 then a2b_base64_loop 1 v 0 bin_data ascii_data
            else if quad_pos = 1 then
              a2b_base64_loop 2 (v mod 16) 0
                (bin_data @ [char_of ((leftchar * 4 + v div 16) mod 256)]) ascii_data
            else if quad_pos = 2 then
              a2b_base64_loop 3 (v mod 4) 0
                (bin_data @ [char_of ((leftchar * 16 + v div 4) mod 256)]) ascii_data
            else
              a2b_base64_loop 0 0 0
                (bin_data @ [char_of ((leftchar * 64 + v) mod 256)]) ascii_data))"

definition a2b_base64 :: "string \<Rightarrow> exn + bytes" where
  "a2b_base64 s = a2b_base64_loop 0 0 0 [] s"

definition b64decode :: "string \<Rightarrow> exn + bytes" where
  "b64decode s =
     (if list_ex (\<lambda>c. (of_char c :: nat) \<ge> 128) s
      then Inl (PyException ''ValueError'' ''string argument should contain only ASCII characters'')
      else a2b_base64 s)"

section \<open>Paths\<close>

text \<open>
  A \<open>pathlib\<close> path on a POSIX system: whether it is absolute, and its components, among
  which no empty one and no \<open>.\<close> (a leading \<open>//\<close> is read as \<open>/\<close>).
\<close>

datatype path = Path (is_absolute: bool) (parts: "string list")

definition Path_of :: "string \<Rightarrow> path" where
  "Path_of s =
     Path (prefix ''/'' s) (filter (\<lambda>x. x \<noteq> [] \<and> x \<noteq> ''.'') (str_split (CHR ''/'') s))"

text \<open>\<open>p / s\<close>: an absolute right operand replaces the left one.\<close>

definition truediv :: "path \<Rightarrow> string \<Rightarrow> path" where
  "truediv p s =
     (if prefix ''/'' s then Path_of s else Path (is_absolute p) (parts p @ parts (Path_of s)))"

definition path_name :: "path \<Rightarrow> string" where
  "path_name p = (if parts p = [] then [] else last (parts p))"

text \<open>\<open>s.rfind(c)\<close>.\<close>

definition rfind :: "string \<Rightarrow> char \<Rightarrow> int" where
  "rfind s c =
     (if c \<in> set s then int (length s) - 1 - int (length (takeWhile (\<lambda>x. x \<noteq> c) (rev s)))
      else - 1)"

definition path_suffix :: "path \<Rightarrow> string" where
  "path_suffix p =
     (let name = path_name p; i = rfind name (CHR ''.'')
      in if 0 < i \<and> i < int (length name) - 1 then drop (nat i) name else [])"

definition path_stem :: "path \<Rightarrow> string" where
  "path_stem p =
     (let name = path_name p; i = rfind name (CHR ''.'')
      in if 0 < i \<and> i < int (length name) - 1 then take (nat i) name else name)"

section \<open>The outside world\<close>

text \<open>
  The program talks to the OCR service and to the file system. What each call answers is
  given by an environment; what the program did is kept in a world: the calls it made
  that reach outside, in order (also those that failed), what it printed, and the files it
  wrote.
\<close>

datatype document = ImageURLChunk string | DocumentURLChunk string

record env =
  read_bytes :: "path \<Rightarrow> exn + bytes"
  files_upload :: "string \<Rightarrow> bytes \<Rightarrow> exn + string"
  files_get_signed_url :: "string \<Rightarrow> exn + string"
  ocr_process :: "document \<Rightarrow> string \<Rightarrow> bool \<Rightarrow> exn + response"
  files_delete :: "string \<Rightarrow> exn option"
  mkdir :: "path \<Rightarrow> exn option"
  open_wb :: "path \<Rightarrow> exn option"
  write_text :: "path \<Rightarrow> exn option"
  resolve :: "path \<Rightarrow> path"

text \<open>
  A path is not a file: the operating system follows \<open>..\<close>, symbolic links and the working
  directory, and two paths can name one file. \<open>resolve\<close> gives, for a path, the canonical
  path of the file that the system opens for it; the files of the world are kept under
  these.
\<close>

datatype event =
    Mistral string
  | FilesUpload string bytes
  | FilesGetSignedUrl string nat
  | OcrProcess document string bool
  | FilesDelete string
  | Mkdir path
  | Echo string

record world =
  trace :: "event list"
  files :: "path \<Rightarrow> bytes option"

definition call :: "event \<Rightarrow> world \<Rightarrow> world" where
  "call ev w = w\<lparr>trace := trace w @ [ev]\<rparr>"

definition put_file :: "env \<Rightarrow> path \<Rightarrow> bytes \<Rightarrow> world \<Rightarrow> world" where
  "put_file env p content w = w\<lparr>files := (files w)(resolve env p \<mapsto> content)\<rparr>"

text \<open>
  \<open>create_inline_image_map\<close>. A Python function can change the dictionary that it is given
  and can reach the world, so the model returns, with the map or the exception, the
  dictionary and the world as the call leaves them. The source reads the dictionary
  (\<open>.get\<close>, \<open>in\<close>, subscripts), assigns into the local \<open>image_map\<close> only, and calls nothing
  outside.
\<close>

definition create_inline_image_map ::
  "response \<Rightarrow> world \<Rightarrow> (exn + image_map) \<times> response \<times> world" where
  "create_inline_image_map response_dict w =
     (inline_pages_loop (response_pages response_dict) [], response_dict, w)"

section \<open>Document submission\<close>

definition process_image ::
  "env \<Rightarrow> path \<Rightarrow> string \<Rightarrow> bool \<Rightarrow> world \<Rightarrow> (exn + response) \<times> world" where
  "process_image env image_path model include_images w =
     (case read_bytes env image_path of
        Inl e \<Rightarrow> (Inl e, w)
      | Inr content \<Rightarrow>
          (let encoded = b64encode content;
               base64_data_url = ''data:image/jpeg;base64,'' @ encoded;
               doc = ImageURLChunk base64_data_url
           in (ocr_process env doc model include_images,
               call (OcrProcess doc model include_images) w)))"

text \<open>
  The inner \<open>try\<close> block of \<open>process_pdf\<close>: the signed URL, then the OCR call. The uploaded
  file is its identifier.
\<close>

definition submit_uploaded ::
  "env \<Rightarrow> string \<Rightarrow> string \<Rightarrow> bool \<Rightarrow> world \<Rightarrow> (exn + response) \<times> world" where
  "submit_uploaded env uploaded_file model include_images w =
     (let w1 = call (FilesGetSignedUrl uploaded_file 1) w
      in (case files_get_signed_url env uploaded_file of
          Inl e \<Rightarrow> (Inl e, w1)
        | Inr url \<Rightarrow>
            (let doc = DocumentURLChunk url
             in (ocr_process env doc model include_images,
                 call (OcrProcess doc model include_images) w1))))"

text \<open>
  \<open>process_pdf\<close>. In the handler of the inner block the uploaded file is an object, hence
  true, and the delete runs; when the delete raises, its exception leaves the handler.
\<close>

definition process_pdf ::
  "env \<Rightarrow> path \<Rightarrow> string \<Rightarrow> bool \<Rightarrow> world \<Rightarrow> (exn + response \<times> string) \<times> world" where
  "process_pdf env pdf_path model include_images w =
     (case read_bytes env pdf_path of
        Inl e \<Rightarrow> (Inl e, w)
      | Inr content \<Rightarrow>
          (let w1 = call (FilesUpload (path_stem pdf_path) content) w
           in (case files_upload env (path_stem pdf_path) content of
               Inl e \<Rightarrow> (Inl e, w1)
             | Inr uploaded_file \<Rightarrow>
                 (case submit_uploaded env uploaded_file model include_images w1 of
                    (Inr response, w2) \<Rightarrow> (Inr (response, uploaded_file), w2)
                  | (Inl e, w2) \<Rightarrow>
                      (let w3 = call (FilesDelete uploaded_file) w2
                       in (case files_delete env uploaded_file of
                           Some e' \<Rightarrow> (Inl e', w3)
                         | None \<Rightarrow> (Inl e, w3)))))))"

section \<open>Image extraction\<close>

text \<open>\<open>image_data.split(",", 1)[1]\<close> behind the test \<open>startswith("data:image/")\<close>.\<close>

definition split_once :: "char \<Rightarrow> string \<Rightarrow> string list" where
  "split_once sep s =
     (if sep \<in> set s then [takeWhile (\<lambda>x. x \<noteq> sep) s, tl (dropWhile (\<lambda>x. x \<noteq> sep) s)]
      else [s])"

definition strip_data_uri :: "string \<Rightarrow> exn + string" where
  "strip_data_uri image_data =
     (if startswith image_data ''data:image/'' then
        (let fields = split_once (CHR '','') image_data
         in if 1 < length fields then Inr (fields ! 1)
            else Inl (PyException ''IndexError'' ''list index out of range''))
      else Inr image_data)"

text \<open>
  One image of the loop; the state is the map and the count. \<open>open(image_path, "wb")\<close>
  creates or empties the file before the data is decoded, so a decoding error leaves an
  empty file behind.
\<close>

definition extract_image ::
  "env \<Rightarrow> path \<Rightarrow> image \<Rightarrow> image_map \<times> nat \<Rightarrow> world \<Rightarrow> (exn + image_map \<times> nat) \<times> world" where
  "extract_image env image_dir img st w =
     (case image_id img of
        None \<Rightarrow> (Inr st, w)
      | Some img_id \<Rightarrow>
          (case image_base64 img of
             None \<Rightarrow> (Inr st, w)
           | Some JNull \<Rightarrow> (Inl attribute_error, w)
           | Some (JString data) \<Rightarrow>
               (case strip_data_uri data of
                  Inl e \<Rightarrow> (Inl e, w)
                | Inr image_data \<Rightarrow>
                    (let image_filename = img_id;
                         image_path = truediv image_dir image_filename
                     in (case open_wb env image_path of
                         Some e \<Rightarrow> (Inl e, w)
                       | None \<Rightarrow>
                           (case b64decode image_data of
                              Inl e \<Rightarrow> (Inl e, put_file env image_path [] w)
                            | Inr content \<Rightarrow>
                                (Inr (AList.update image_filename image_filename (fst st),
                                      snd st + 1),
                                 put_file env image_path content w)))))))"

fun extract_images_loop ::
  "env \<Rightarrow> path \<Rightarrow> image list \<Rightarrow> image_map \<times> nat \<Rightarrow> world \<Rightarrow> (exn + image_map \<times> nat) \<times> world" where
  "extract_images_loop env image_dir [] st w = (Inr st, w)"
| "extract_images_loop env image_dir (img # imgs) st w =
     (case extract_image env image_dir img st w of
        (Inl e, w') \<Rightarrow> (Inl e, w')
      | (Inr st', w') \<Rightarrow> extract_images_loop env image_dir imgs st' w')"

fun extract_pages_loop ::
  "env \<Rightarrow> path \<Rightarrow> page list \<Rightarrow> image_map \<times> nat \<Rightarrow> world \<Rightarrow> (exn + image_map \<times> nat) \<times> world" where
  "extract_pages_loop env image_dir [] st w = (Inr st, w)"
| "extract_pages_loop env image_dir (p # ps) st w =
     (case extract_images_loop env image_dir (page_images p) st w of
        (Inl e, w') \<Rightarrow> (Inl e, w')
      | (Inr st', w') \<Rightarrow> extract_pages_loop env image_dir ps st' w')"

definition extract_images_to_dir ::
  "env \<Rightarrow> response \<Rightarrow> string \<Rightarrow> world \<Rightarrow> (exn + image_map) \<times> world" where
  "extract_images_to_dir env response_dict output_dir w =
     (case extract_pages_loop env (Path_of output_dir) (response_pages response_dict) ([], 0) w of
        (Inl e, w') \<Rightarrow> (Inl e, w')
      | (Inr (image_map, image_count), w') \<Rightarrow> (Inr image_map, w'))"

section \<open>Output and the command\<close>

text \<open>
  Python's truth value of an optional string: \<open>None\<close> and the empty string are false.
  The parameter \<open>json_\<close> of the source is \<open>json_flag\<close>.
\<close>

definition truthy :: "string option \<Rightarrow> bool" where
  "truthy s = (case s of None \<Rightarrow> False | Some v \<Rightarrow> v \<noteq> [])"

definition validate_options ::
  "string option \<Rightarrow> string option \<Rightarrow> string option \<Rightarrow> bool \<Rightarrow> bool \<Rightarrow> bool \<Rightarrow> exn + unit" where
  "validate_options api_key output output_dir json_flag extract_images inline_images =
     (if \<not> truthy api_key then
        Inl (ClickException
          ''No API key provided and MISTRAL_API_KEY environment variable not set.'')
      else if truthy output \<and> truthy output_dir then
        Inl (ClickException ''Cannot specify both --output and --output-dir'')
      else if json_flag \<and> truthy output_dir then
        Inl (ClickException ''JSON output is not supported with --output-dir'')
      else if extract_images \<and> \<not> truthy output_dir then
        Inl (ClickException ''--extract-images requires --output-dir'')
      else if inline_images \<and> extract_images then
        Inl (ClickException ''Cannot specify both --inline-images and --extract-images'')
      else Inr ())"

text \<open>\<open>path.write_text(result)\<close>.\<close>

definition path_write_text :: "env \<Rightarrow> path \<Rightarrow> string \<Rightarrow> world \<Rightarrow> (exn + unit) \<times> world" where
  "path_write_text env output_path result w =
     (case write_text env output_path of
        Some e \<Rightarrow> (Inl e, w)
      | None \<Rightarrow> (Inr (), put_file env output_path result w))"

definition save_output ::
  "env \<Rightarrow> string \<Rightarrow> string \<Rightarrow> string option \<Rightarrow> string option \<Rightarrow> world \<Rightarrow> (exn + unit) \<times> world" where
  "save_output env result output_format output_dir output_file w =
     (if truthy output_dir then
        path_write_text env
          (truediv (Path_of (the output_dir))
             (if output_format = ''html'' then ''index.html'' else ''README.md''))
          result w
      else if truthy output_file then path_write_text env (Path_of (the output_file)) result w
      else (Inr (), call (Echo result) w))"

text \<open>The options of the command, as \<open>click\<close> passes them to \<open>ocr_pdf\<close>.\<close>

record options =
  opt_file_path :: string
  opt_api_key :: "string option"
  opt_output :: "string option"
  opt_output_dir :: "string option"
  opt_model :: string
  opt_json :: bool
  opt_html :: bool
  opt_inline_images :: bool
  opt_extract_images :: bool
  opt_silent :: bool

text \<open>
  The inner \<open>try\<close> block of \<open>ocr_pdf\<close>, from the choice of the variant to the saved output.
  It yields what the block raised, if anything, the variable \<open>uploaded_file\<close> as the block
  left it, and the world.
\<close>

definition ocr_submit ::
  "env \<Rightarrow> options \<Rightarrow> path \<Rightarrow> world \<Rightarrow> (exn + response) \<times> string option \<times> world" where
  "ocr_submit env opts input_file w =
     (let is_image = (str_lower (path_suffix input_file) \<in> set [''.png'', ''.jpg'', ''.jpeg'']);
          include_images = (opt_inline_images opts \<or> opt_extract_images opts)
      in if is_image then
           (case process_image env input_file (opt_model opts) include_images w of
              (r, w') \<Rightarrow> (r, None, w'))
         else
           (case process_pdf env input_file (opt_model opts) include_images w of
              (Inl e, w') \<Rightarrow> (Inl e, None, w')
            | (Inr (response, uploaded_file), w') \<Rightarrow> (Inr response, Some uploaded_file, w')))"

definition ocr_output ::
  "env \<Rightarrow> library \<Rightarrow> options \<Rightarrow> string \<Rightarrow> response \<Rightarrow> world \<Rightarrow> (exn + unit) \<times> world" where
  "ocr_output env lib opts output_format response_dict w =
     (case (if truthy (opt_output_dir opts)
            then (case mkdir env (Path_of (the (opt_output_dir opts))) of
                    Some e \<Rightarrow> (Inl e, call (Mkdir (Path_of (the (opt_output_dir opts)))) w)
                  | None \<Rightarrow> (Inr (), call (Mkdir (Path_of (the (opt_output_dir opts)))) w))
            else (Inr (), w)) of
        (Inl e, w1) \<Rightarrow> (Inl e, w1)
      | (Inr u, w1) \<Rightarrow>
          (case (if opt_extract_images opts \<and> truthy (opt_output_dir opts)
                 then (case extract_images_to_dir env response_dict
                              (the (opt_output_dir opts)) w1 of
                         (r, w2) \<Rightarrow> (r, response_dict, w2))
                 else if opt_inline_images opts
                 then create_inline_image_map response_dict w1
                 else (Inr [], response_dict, w1)) of
             (Inl e, response_dict', w2) \<Rightarrow> (Inl e, w2)
           | (Inr image_map, response_dict', w2) \<Rightarrow>
               (case generate_output_content lib response_dict' output_format image_map of
                  Inl e \<Rightarrow> (Inl e, w2)
                | Inr result \<Rightarrow>
                    save_output env result output_format (opt_output_dir opts)
                      (opt_output opts) w2)))"

definition ocr_try ::
  "env \<Rightarrow> library \<Rightarrow> options \<Rightarrow> string \<Rightarrow> path \<Rightarrow> world \<Rightarrow> (exn + unit) \<times> string option \<times> world" where
  "ocr_try env lib opts output_format input_file w =
     (case ocr_submit env opts input_file w of
        (Inl e, uploaded_file, w1) \<Rightarrow> (Inl e, uploaded_file, w1)
      | (Inr response, uploaded_file, w1) \<Rightarrow>
          (case ocr_output env lib opts output_format response w1 of
             (r, w2) \<Rightarrow> (r, uploaded_file, w2)))"

text \<open>
  The \<open>finally\<close> block: one delete when a file was uploaded; a failure of the delete is a
  warning and goes no further.
\<close>

definition cleanup :: "env \<Rightarrow> string option \<Rightarrow> world \<Rightarrow> world" where
  "cleanup env uploaded_file w =
     (case uploaded_file of
        None \<Rightarrow> w
      | Some file_id \<Rightarrow> call (FilesDelete file_id) w)"

text \<open>
  \<open>ocr_pdf\<close>: the validation, the client, the inner block, whose exception becomes a
  \<open>ClickException\<close>, and the cleanup.
\<close>

definition ocr_pdf :: "env \<Rightarrow> library \<Rightarrow> options \<Rightarrow> world \<Rightarrow> (exn + unit) \<times> world" where
  "ocr_pdf env lib opts w =
     (case validate_options (opt_api_key opts) (opt_output opts) (opt_output_dir opts)
             (opt_json opts) (opt_extract_images opts) (opt_inline_images opts) of
        Inl e \<Rightarrow> (Inl e, w)
      | Inr u \<Rightarrow>
          (let output_format =
                 (if opt_json opts then ''json'' else if opt_html opts then ''html''
                  else ''markdown'');
               input_file = Path_of (opt_file_path opts);
               w0 = call (Mistral (the (opt_api_key opts))) w
           in (case ocr_try env lib opts output_format input_file w0 of
               (Inl e, uploaded_file, w1) \<Rightarrow>
                 (Inl (ClickException (''Error: '' @ str_exn e)), cleanup env uploaded_file w1)
             | (Inr u', uploaded_file, w1) \<Rightarrow> (Inr (), cleanup env uploaded_file w1))))"

section \<open>Auxiliary notions\<close>

text \<open>All images of a response, in the order in which the two nested loops visit them.\<close>

definition response_images :: "response \<Rightarrow> image list" where
  "response_images r = concat (map page_images (response_pages r))"

text \<open>An image with both keys.\<close>

definition complete :: "image \<Rightarrow> bool" where
  "complete img = (image_id img \<noteq> None \<and> image_base64 img \<noteq> None)"

text \<open>
  The substitution in the words of the specification: every occurrence of the image syntax
  with the identifier as target, found from left to right with the shortest alt text on
  one line, becomes the same syntax with the reference as target, the reference taken
  literally; the entries of the map are applied one after the other.
\<close>

function spec_replace_links :: "string \<Rightarrow> string \<Rightarrow> string \<Rightarrow> string" where
  "spec_replace_links img_id img_src [] = []"
| "spec_replace_links img_id img_src (c # cs) =
     (case re_match img_id (c # cs) of
        None \<Rightarrow> c # spec_replace_links img_id img_src cs
      | Some (alt, rest) \<Rightarrow>
          ''!['' @ alt @ '']('' @ img_src @ '')'' @ spec_replace_links img_id img_src rest)"
  by pat_completeness auto
termination
  by (relation "measure (\<lambda>(img_id, img_src, s). length s)") (auto dest: re_match_shorter)

fun spec_substitute_images :: "image_map \<Rightarrow> string \<Rightarrow> string" where
  "spec_substitute_images [] markdown_text = markdown_text"
| "spec_substitute_images ((img_id, img_src) # entries) markdown_text =
     spec_substitute_images entries (spec_replace_links img_id img_src markdown_text)"

section \<open>Example inputs\<close>

definition example_library :: library where
  "example_library = \<lparr>json_dumps = (\<lambda>r. ''{}''), md_convert = (\<lambda>s. s)\<rparr>"

definition empty_world :: world where
  "empty_world = \<lparr>trace = [], files = (\<lambda>p. None)\<rparr>"

definition empty_response :: response where
  "empty_response = \<lparr>pages = Some []\<rparr>"

definition failing_env :: env where
  "failing_env =
     \<lparr>read_bytes = (\<lambda>p. Inr ''ABC''),
      files_upload = (\<lambda>name content. Inr ''file-1''),
      files_get_signed_url = (\<lambda>file_id. Inr ''https://signed''),
      ocr_process = (\<lambda>doc model include_images. Inl (PyException ''SDKError'' ''ocr failed'')),
      files_delete = (\<lambda>file_id. Some (PyException ''SDKError'' ''delete failed'')),
      mkdir = (\<lambda>p. None), open_wb = (\<lambda>p. None), write_text = (\<lambda>p. None),
      resolve = (\<lambda>p. p)\<rparr>"

definition working_env :: env where
  "working_env =
     \<lparr>read_bytes = (\<lambda>p. Inr ''ABC''),
      files_upload = (\<lambda>name content. Inr ''file-1''),
      files_get_signed_url = (\<lambda>file_id. Inr ''https://signed''),
      ocr_process = (\<lambda>doc model include_images. Inr empty_response),
      files_delete = (\<lambda>file_id. None),
      mkdir = (\<lambda>p. None), open_wb = (\<lambda>p. None), write_text = (\<lambda>p. None),
      resolve = (\<lambda>p. p)\<rparr>"

definition example_options :: options where
  "example_options =
     \<lparr>opt_file_path = ''doc.pdf'', opt_api_key = Some ''key'', opt_output = None,
      opt_output_dir = None, opt_model = ''mistral-ocr-latest'', opt_json = False,
      opt_html = False, opt_inline_images = False, opt_extract_images = False,
      opt_silent = False\<rparr>"

text \<open>
  A file system without symbolic links: the file of a path is found by following its
  \<open>..\<close> components.
\<close>

fun follow_dotdot :: "string list \<Rightarrow> string list \<Rightarrow> string list" where
  "follow_dotdot seen [] = rev seen"
| "follow_dotdot seen (x # xs) =
     (if x = ''..'' then follow_dotdot (tl seen) xs else follow_dotdot (x # seen) xs)"

definition plain_env :: env where
  "plain_env =
     working_env\<lparr>resolve := (\<lambda>p. Path (is_absolute p) (follow_dotdot [] (parts p)))\<rparr>"

section \<open>Properties of the content assembler\<close>

text \<open>
  C7. JSON output is the serialization of the whole response and never looks at the image
  map: for every response and every map the result is \<open>json.dumps\<close> of the response, so it
  equals the result for the empty map.
\<close>

theorem json_ignores_image_map:
  "generate_output_content lib r ''json'' m = Inr (json_dumps lib r)
   \<and> generate_output_content lib r ''json'' m = generate_output_content lib r ''json'' []"
  by (simp add: generate_output_content_def)

section \<open>The replacement template\<close>



section \<open>Base64 round trip\<close>

lemma of_char_lt_256: "(of_char c :: nat) < 256"
  by (metis of_char_mod_256 mod_less_divisor zero_less_numeral)

lemma takeWhile_neq_nth_length:
  assumes "distinct xs" "n < length xs"
  shows "length (takeWhile (\<lambda>x. x \<noteq> xs ! n) xs) = n"
proof -
  have "takeWhile (\<lambda>x. x \<noteq> xs ! n) xs = take n xs"
  proof (rule takeWhile_eq_take_P_nth)
    fix i assume "i < n" "i < length xs"
    then show "xs ! i \<noteq> xs ! n"
      using assms by (simp add: nth_eq_iff_index_eq)
  next
    show "\<not> xs ! n \<noteq> xs ! n" by simp
  qed
  then show ?thesis using assms by simp
qed

lemma b64_alphabet_length: "length b64_alphabet = 64"
  by (simp add: b64_alphabet_def)

lemma b64_alphabet_distinct: "distinct b64_alphabet"
  by (simp add: b64_alphabet_def)

lemma table_a2b_b2a: "n < 64 \<Longrightarrow> table_a2b_base64 (table_b2a_base64 n) = Some n"
  unfolding table_a2b_base64_def table_b2a_base64_def
  using takeWhile_neq_nth_length [OF b64_alphabet_distinct, of n]
  by (simp add: b64_alphabet_length)

lemma table_b2a_not_pad: "n < 64 \<Longrightarrow> table_b2a_base64 n \<noteq> CHR ''=''"
proof -
  assume "n < 64"
  then have "table_b2a_base64 n \<in> set b64_alphabet"
    unfolding table_b2a_base64_def by (simp add: b64_alphabet_length)
  moreover have "CHR ''='' \<notin> set b64_alphabet"
    by (simp add: b64_alphabet_def)
  ultimately show ?thesis by auto
qed

lemma table_b2a_ascii: "n < 64 \<Longrightarrow> \<not> (128 \<le> (of_char (table_b2a_base64 n) :: nat))"
proof -
  assume "n < 64"
  then have "table_b2a_base64 n \<in> set b64_alphabet"
    unfolding table_b2a_base64_def by (simp add: b64_alphabet_length)
  moreover have "\<forall>c \<in> set b64_alphabet. \<not> (128 \<le> (of_char c :: nat))"
    by (simp add: b64_alphabet_def)
  ultimately show ?thesis by blast
qed

lemma loop_sextet:
  "n < 64 \<Longrightarrow> a2b_base64_loop q l p out (table_b2a_base64 n # cs) =
     (if q = 0 then a2b_base64_loop 1 n 0 out cs
      else if q = 1 then a2b_base64_loop 2 (n mod 16) 0 (out @ [char_of ((l * 4 + n div 16) mod 256)]) cs
      else if q = 2 then a2b_base64_loop 3 (n mod 4) 0 (out @ [char_of ((l * 16 + n div 4) mod 256)]) cs
      else a2b_base64_loop 0 0 0 (out @ [char_of ((l * 64 + n) mod 256)]) cs)"
  by (simp add: table_a2b_b2a table_b2a_not_pad)

lemma loop_pad:
  "a2b_base64_loop q l p out (CHR ''='' # cs) =
     (if q \<ge> 2 \<and> q + (p + 1) \<ge> 4 then Inr out
      else a2b_base64_loop q l (if q \<ge> 2 then p + 1 else p) out cs)"
  by simp

lemma sextets_of_bytes:
  fixes x y z :: nat
  assumes "x < 256" "y < 256" "z < 256"
  shows "x div 4 < 64" "x mod 4 * 16 + y div 16 < 64" "y mod 16 * 4 + z div 64 < 64"
    "z mod 64 < 64" "x mod 4 * 16 < 64" "y mod 16 * 4 < 64"
    "(x div 4 * 4 + (x mod 4 * 16 + y div 16) div 16) mod 256 = x"
    "((x mod 4 * 16 + y div 16) mod 16 * 16 + (y mod 16 * 4 + z div 64) div 4) mod 256 = y"
    "((y mod 16 * 4 + z div 64) mod 4 * 64 + z mod 64) mod 256 = z"
    "(x div 4 * 4 + x mod 4 * 16 div 16) mod 256 = x"
    "((x mod 4 * 16 + y div 16) mod 16 * 16 + y mod 16 * 4 div 4) mod 256 = y"
  using assms by auto

lemma loop_one_byte:
  fixes x :: nat
  assumes "x < 256"
  shows "a2b_base64_loop 0 0 0 out
           [table_b2a_base64 (x div 4), table_b2a_base64 (x mod 4 * 16), CHR ''='', CHR ''='']
         = Inr (out @ [char_of x])"
proof -
  note s = sextets_of_bytes [OF assms assms assms]
  have "a2b_base64_loop 0 0 0 out
           [table_b2a_base64 (x div 4), table_b2a_base64 (x mod 4 * 16), CHR ''='', CHR ''='']
        = a2b_base64_loop 1 (x div 4) 0 out [table_b2a_base64 (x mod 4 * 16), CHR ''='', CHR ''='']"
    using s(1) by (subst loop_sextet) simp_all
  also have "\<dots> = a2b_base64_loop 2 ((x mod 4 * 16) mod 16) 0
                     (out @ [char_of ((x div 4 * 4 + x mod 4 * 16 div 16) mod 256)]) ''==''"
    using s(5) by (subst loop_sextet) simp_all
  also have "\<dots> = Inr (out @ [char_of ((x div 4 * 4 + x mod 4 * 16 div 16) mod 256)])"
    by (simp only: loop_pad) simp
  finally show ?thesis by (simp only: s(10))
qed

lemma loop_two_bytes:
  fixes x y :: nat
  assumes "x < 256" "y < 256"
  shows "a2b_base64_loop 0 0 0 out
           [table_b2a_base64 (x div 4), table_b2a_base64 (x mod 4 * 16 + y div 16),
            table_b2a_base64 (y mod 16 * 4), CHR ''='']
         = Inr (out @ [char_of x, char_of y])"
proof -
  note s = sextets_of_bytes [OF assms assms(1)]
  have "a2b_base64_loop 0 0 0 out
           [table_b2a_base64 (x div 4), table_b2a_base64 (x mod 4 * 16 + y div 16),
            table_b2a_base64 (y mod 16 * 4), CHR ''='']
        = a2b_base64_loop 1 (x div 4) 0 out
            [table_b2a_base64 (x mod 4 * 16 + y div 16), table_b2a_base64 (y mod 16 * 4), CHR ''='']"
    using s(1) by (subst loop_sextet) simp_all
  also have "\<dots> = a2b_base64_loop 2 ((x mod 4 * 16 + y div 16) mod 16) 0
                     (out @ [char_of ((x div 4 * 4 + (x mod 4 * 16 + y div 16) div 16) mod 256)])
                     [table_b2a_base64 (y mod 16 * 4), CHR ''='']"
    using s(2) by (subst loop_sextet) simp_all
  also have "\<dots> = a2b_base64_loop 3 ((y mod 16 * 4) mod 4) 0
                     (out @ [char_of ((x div 4 * 4 + (x mod 4 * 16 + y div 16) div 16) mod 256)]
                          @ [char_of (((x mod 4 * 16 + y div 16) mod 16 * 16 + y mod 16 * 4 div 4) mod 256)])
                     ''=''"
    using s(6) by (subst loop_sextet) simp_all
  also have "\<dots> = Inr (out @ [char_of ((x div 4 * 4 + (x mod 4 * 16 + y div 16) div 16) mod 256)]
                          @ [char_of (((x mod 4 * 16 + y div 16) mod 16 * 16 + y mod 16 * 4 div 4) mod 256)])"
    by (simp only: loop_pad) simp
  finally show ?thesis by (simp only: s(7) s(11)) simp
qed

lemma loop_three_bytes:
  fixes x y z :: nat
  assumes "x < 256" "y < 256" "z < 256"
  shows "a2b_base64_loop 0 0 0 out
           (table_b2a_base64 (x div 4) # table_b2a_base64 (x mod 4 * 16 + y div 16)
            # table_b2a_base64 (y mod 16 * 4 + z div 64) # table_b2a_base64 (z mod 64) # cs)
         = a2b_base64_loop 0 0 0 (out @ [char_of x, char_of y, char_of z]) cs"
proof -
  note s = sextets_of_bytes [OF assms]
  have "a2b_base64_loop 0 0 0 out
           (table_b2a_base64 (x div 4) # table_b2a_base64 (x mod 4 * 16 + y div 16)
            # table_b2a_base64 (y mod 16 * 4 + z div 64) # table_b2a_base64 (z mod 64) # cs)
        = a2b_base64_loop 1 (x div 4) 0 out
            (table_b2a_base64 (x mod 4 * 16 + y div 16)
             # table_b2a_base64 (y mod 16 * 4 + z div 64) # table_b2a_base64 (z mod 64) # cs)"
    using s(1) by (subst loop_sextet) simp_all
  also have "\<dots> = a2b_base64_loop 2 ((x mod 4 * 16 + y div 16) mod 16) 0
                     (out @ [char_of ((x div 4 * 4 + (x mod 4 * 16 + y div 16) div 16) mod 256)])
                     (table_b2a_base64 (y mod 16 * 4 + z div 64) # table_b2a_base64 (z mod 64) # cs)"
    using s(2) by (subst loop_sextet) simp_all
  also have "\<dots> = a2b_base64_loop 3 ((y mod 16 * 4 + z div 64) mod 4) 0
                     (out @ [char_of ((x div 4 * 4 + (x mod 4 * 16 + y div 16) div 16) mod 256)]
                          @ [char_of (((x mod 4 * 16 + y div 16) mod 16 * 16
                                        + (y mod 16 * 4 + z div 64) div 4) mod 256)])
                     (table_b2a_base64 (z mod 64) # cs)"
    using s(3) by (subst loop_sextet) simp_all
  also have "\<dots> = a2b_base64_loop 0 0 0
                     (out @ [char_of ((x div 4 * 4 + (x mod 4 * 16 + y div 16) div 16) mod 256)]
                          @ [char_of (((x mod 4 * 16 + y div 16) mod 16 * 16
                                        + (y mod 16 * 4 + z div 64) div 4) mod 256)]
                          @ [char_of (((y mod 16 * 4 + z div 64) mod 4 * 64 + z mod 64) mod 256)])
                     cs"
    using s(4) by (subst loop_sextet) simp_all
  finally show ?thesis by (simp only: s(7) s(8) s(9)) simp
qed

lemma a2b_base64_loop_b64encode:
  "a2b_base64_loop 0 0 0 out (b64encode bs) = Inr (out @ bs)"
proof (induction bs arbitrary: out rule: b64encode.induct)
  case 1
  show ?case by simp
next
  case (2 a)
  show ?case
    using loop_one_byte [where x = "of_char a" and out = out, OF of_char_lt_256] by simp
next
  case (3 a b)
  show ?case
    using loop_two_bytes [where x = "of_char a" and y = "of_char b" and out = out,
        OF of_char_lt_256 of_char_lt_256]
    by simp
next
  case (4 a b c bs)
  show ?case
    using loop_three_bytes [where x = "of_char a" and y = "of_char b" and z = "of_char c"
          and out = out and cs = "b64encode bs", OF of_char_lt_256 of_char_lt_256 of_char_lt_256]
      "4.IH" [of "out @ [a, b, c]"]
    by simp
qed

lemma b64_char_ascii:
  "n < 64 \<Longrightarrow> \<not> list_ex (\<lambda>c. (of_char c :: nat) \<ge> 128) cs
     \<Longrightarrow> \<not> list_ex (\<lambda>c. (of_char c :: nat) \<ge> 128) (table_b2a_base64 n # cs)"
  using table_b2a_ascii [of n] by simp

lemma b64encode_ascii: "\<not> list_ex (\<lambda>c. (of_char c :: nat) \<ge> 128) (b64encode bs)"
proof (induction bs rule: b64encode.induct)
  case 1
  show ?case by simp
next
  case (2 a)
  note s = sextets_of_bytes [where x = "of_char a" and y = "of_char a" and z = "of_char a",
      OF of_char_lt_256 of_char_lt_256 of_char_lt_256]
  have "\<not> list_ex (\<lambda>c. (of_char c :: nat) \<ge> 128) ''==''" by simp
  then show ?case
    unfolding b64encode.simps by (intro b64_char_ascii s)
next
  case (3 a b)
  note s = sextets_of_bytes [where x = "of_char a" and y = "of_char b" and z = "of_char a",
      OF of_char_lt_256 of_char_lt_256 of_char_lt_256]
  have "\<not> list_ex (\<lambda>c. (of_char c :: nat) \<ge> 128) ''=''" by simp
  then show ?case
    unfolding b64encode.simps by (intro b64_char_ascii s)
next
  case (4 a b c bs)
  note s = sextets_of_bytes [where x = "of_char a" and y = "of_char b" and z = "of_char c",
      OF of_char_lt_256 of_char_lt_256 of_char_lt_256]
  show ?case
    unfolding b64encode.simps append.simps using "4.IH" by (intro b64_char_ascii s)
qed

lemma b64decode_b64encode: "b64decode (b64encode bs) = Inr bs"
  using a2b_base64_loop_b64encode [of "[]" bs]
  by (simp add: b64decode_def a2b_base64_def b64encode_ascii)

section \<open>Substitution of image references\<close>







lemma lazy_dot_star_sublist:
  "lazy_dot_star lit acc s = Some m \<Longrightarrow> sublist lit s"
proof (induction lit acc s rule: lazy_dot_star.induct)
  case (1 lit acc)
  then show ?case by (auto split: if_splits)
next
  case (2 lit acc c cs)
  show ?case
  proof (cases "prefix lit (c # cs)")
    case True
    then show ?thesis by (rule prefix_imp_sublist)
  next
    case False
    then have "sublist lit cs"
      using 2 by (auto split: if_splits)
    then show ?thesis
      by (simp add: sublist_Cons_right)
  qed
qed

lemma re_match_sublist:
  assumes "re_match img_id s = Some m"
  shows "sublist ('']('' @ img_id @ '')'') s"
proof -
  have "sublist ('']('' @ img_id @ '')'') (drop 2 s)"
    using assms lazy_dot_star_sublist
    by (auto simp add: re_match_def split: if_splits)
  moreover have "sublist (drop 2 s) s"
    by (rule sublist_drop)
  ultimately show ?thesis
    by (rule sublist_order.order.trans)
qed

lemma spec_replace_links_unchanged:
  "\<not> sublist ('']('' @ img_id @ '')'') md \<Longrightarrow> spec_replace_links img_id img_src md = md"
proof (induction md)
  case Nil
  show ?case by simp
next
  case (Cons c cs)
  have "re_match img_id (c # cs) = None"
    using Cons.prems re_match_sublist by (cases "re_match img_id (c # cs)") auto
  moreover have "\<not> sublist ('']('' @ img_id @ '')'') cs"
    using Cons.prems by (simp add: sublist_Cons_right)
  ultimately show ?case
    using Cons.IH by simp
qed

lemma spec_substitute_images_unchanged:
  "list_all (\<lambda>entry. \<not> sublist ('']('' @ fst entry @ '')'') md) image_map
     \<Longrightarrow> spec_substitute_images image_map md = md"
proof (induction image_map)
  case Nil
  show ?case by simp
next
  case (Cons entry entries)
  obtain img_id img_src where e: "entry = (img_id, img_src)"
    by (cases entry)
  then show ?case
    using Cons by (simp add: spec_replace_links_unchanged)
qed

lemma lazy_dot_star_alt:
  "newline \<notin> set alt \<Longrightarrow> CHR '']'' \<notin> set alt \<Longrightarrow>
     lazy_dot_star ('']('' @ img_id @ '')'') acc (alt @ '']('' @ img_id @ '')'' @ post)
       = Some (acc @ alt, post)"
proof (induction alt arbitrary: acc)
  case Nil
  show ?case by simp
next
  case (Cons a alt)
  then show ?case by auto
qed

lemma spec_replace_links_link:
  assumes "newline \<notin> set alt" and "CHR '']'' \<notin> set alt"
  shows "spec_replace_links img_id img_src (''!['' @ alt @ '']('' @ img_id @ '')'' @ post)
         = ''!['' @ alt @ '']('' @ img_src @ '')'' @ spec_replace_links img_id img_src post"
proof -
  have "re_match img_id (''!['' @ alt @ '']('' @ img_id @ '')'' @ post) = Some (alt, post)"
    using lazy_dot_star_alt [OF assms, of img_id "[]" post]
    by (simp add: re_match_def)
  then show ?thesis
    by simp
qed

text \<open>
  C1. With a reference that holds a backslash the replacement is not the reference: the
  reference \<open>\1\<close> is replaced by the alt text, and the reference \<open>images\img-0.jpeg\<close>, a
  relative path written with a backslash, makes the substitution raise, although the
  text has an image link to the identifier. (For references without a backslash the
  substitution is the literal one: \<open>generate_output_content_literal\<close>.)
\<close>

theorem replacement_reference_not_literal:
  "generate_output_content example_library
     \<lparr>pages = Some [\<lparr>markdown = Some ''![a](x)'', images = None\<rparr>]\<rparr> ''markdown''
     [(''x'', [backslash, CHR ''1''])]
   = Inr ''![a](a)''
   \<and> generate_output_content example_library
     \<lparr>pages = Some [\<lparr>markdown = Some ''![fig](img-0.jpeg)'', images = None\<rparr>]\<rparr> ''markdown''
     [(''img-0.jpeg'', ''images'' @ [backslash] @ ''img-0.jpeg'')]
   = Inl (PyException ''re.error'' ''bad escape'')"
  by code_simp

section \<open>Generation on incomplete responses\<close>





section \<open>Calls made by the command\<close>

lemma trace_call: "trace (call ev w) = trace w @ [ev]"
  by (simp add: call_def)

lemma trace_put_file: "trace (put_file env p content w) = trace w"
  by (simp add: put_file_def)

lemma process_image_trace:
  "prefix (trace w) (trace (snd (process_image env p model incl w)))"
  by (simp add: process_image_def trace_call Let_def split: sum.splits)

lemma process_pdf_trace:
  "prefix (trace w) (trace (snd (process_pdf env p model incl w)))"
  by (auto simp add: process_pdf_def submit_uploaded_def trace_call Let_def
      split: sum.splits option.splits prod.splits)

lemma extract_image_trace:
  "trace (snd (extract_image env d img st w)) = trace w"
  by (simp add: extract_image_def trace_put_file Let_def
      split: option.splits sum.splits json_string.splits)

lemma extract_images_loop_trace:
  "trace (snd (extract_images_loop env d imgs st w)) = trace w"
proof (induction imgs arbitrary: st w)
  case Nil
  show ?case by simp
next
  case (Cons img imgs)
  show ?case
    using Cons.IH extract_image_trace [of env d img st w]
    by (auto split: prod.splits sum.splits)
qed

lemma extract_pages_loop_trace:
  "trace (snd (extract_pages_loop env d ps st w)) = trace w"
proof (induction ps arbitrary: st w)
  case Nil
  show ?case by simp
next
  case (Cons p ps)
  show ?case
    using Cons.IH extract_images_loop_trace [of env d "page_images p" st w]
    by (auto split: prod.splits sum.splits)
qed

lemma extract_images_to_dir_trace:
  "trace (snd (extract_images_to_dir env r dir w)) = trace w"
  using extract_pages_loop_trace [of env "Path_of dir" "response_pages r" "([], 0)" w]
  by (auto simp add: extract_images_to_dir_def split: prod.splits sum.splits)

lemma save_output_trace:
  "prefix (trace w) (trace (snd (save_output env result fmt dir out w)))"
  by (simp add: save_output_def path_write_text_def trace_put_file trace_call
      split: option.splits)

lemma stage_trace:
  assumes "prefix (trace w) (trace (snd A))"
    and "\<And>w1. prefix (trace w1) (trace (snd (F w1)))"
  shows "prefix (trace w)
           (trace (snd (case A of (Inl e, w1) \<Rightarrow> (Inl e, w1) | (Inr u, w1) \<Rightarrow> F w1)))"
proof (cases A)
  case (Pair x w1)
  show ?thesis
  proof (cases x)
    case (Inl e)
    then show ?thesis
      using assms(1) Pair by simp
  next
    case (Inr u)
    have "prefix (trace w) (trace w1)"
      using assms(1) Pair by simp
    then have "prefix (trace w) (trace (snd (F w1)))"
      using assms(2) [of w1] by (rule prefix_order.trans)
    then show ?thesis
      using Pair Inr by simp
  qed
qed

lemma content_stage_trace:
  assumes "trace w2 = trace w1"
  shows "prefix (trace w1)
           (trace (snd (case (y, r', w2) of
                          (Inl e, response_dict', w2) \<Rightarrow> (Inl e, w2)
                        | (Inr image_map, response_dict', w2) \<Rightarrow>
                            (case generate_output_content lib response_dict' fmt image_map of
                               Inl e \<Rightarrow> (Inl e, w2)
                             | Inr result \<Rightarrow> save_output env result fmt dir out w2))))"
proof -
  have "prefix (trace w1) (trace (snd (save_output env result fmt dir out w2)))" for result
    using save_output_trace [of w2 env result fmt dir out] assms by simp
  then show ?thesis
    using assms by (simp split: sum.splits)
qed

lemma ocr_output_trace:
  "prefix (trace w) (trace (snd (ocr_output env lib opts fmt r w)))"
  unfolding ocr_output_def
proof (rule stage_trace)
  show "prefix (trace w)
          (trace (snd (if truthy (opt_output_dir opts)
            then (case mkdir env (Path_of (the (opt_output_dir opts))) of
                    Some e \<Rightarrow> (Inl e, call (Mkdir (Path_of (the (opt_output_dir opts)))) w)
                  | None \<Rightarrow> (Inr (), call (Mkdir (Path_of (the (opt_output_dir opts)))) w))
            else (Inr (), w))))"
    by (simp add: trace_call split: option.splits)
next
  fix w1
  define mapped where
    "mapped = (if opt_extract_images opts \<and> truthy (opt_output_dir opts)
                 then (case extract_images_to_dir env r (the (opt_output_dir opts)) w1 of
                         (x, w2) \<Rightarrow> (x, r, w2))
                 else if opt_inline_images opts
                 then create_inline_image_map r w1
                 else (Inr [], r, w1))"
  obtain y r' w2 where mp: "mapped = (y, r', w2)"
    by (cases mapped)
  have "trace w2 = trace w1"
    using mp extract_images_to_dir_trace [of env r "the (opt_output_dir opts)" w1]
    by (auto simp add: mapped_def create_inline_image_map_def split: if_splits prod.splits)
  then show "prefix (trace w1)
          (trace (snd (case (if opt_extract_images opts \<and> truthy (opt_output_dir opts)
                 then (case extract_images_to_dir env r (the (opt_output_dir opts)) w1 of
                         (x, w2) \<Rightarrow> (x, r, w2))
                 else if opt_inline_images opts
                 then create_inline_image_map r w1
                 else (Inr [], r, w1)) of
             (Inl e, response_dict', w2) \<Rightarrow> (Inl e, w2)
           | (Inr image_map, response_dict', w2) \<Rightarrow>
               (case generate_output_content lib response_dict' fmt image_map of
                  Inl e \<Rightarrow> (Inl e, w2)
                | Inr result \<Rightarrow>
                    save_output env result fmt (opt_output_dir opts) (opt_output opts) w2))))"
    unfolding mapped_def [symmetric] mp by (rule content_stage_trace)
qed

lemma ocr_submit_trace:
  "prefix (trace w) (trace (snd (snd (ocr_submit env opts p w))))"
proof (cases "str_lower (path_suffix p) \<in> set [''.png'', ''.jpg'', ''.jpeg'']")
  case True
  then show ?thesis
    using process_image_trace [of w env p "opt_model opts"
        "opt_inline_images opts \<or> opt_extract_images opts"]
    unfolding ocr_submit_def Let_def by (auto split: prod.splits)
next
  case False
  then show ?thesis
    using process_pdf_trace [of w env p "opt_model opts"
        "opt_inline_images opts \<or> opt_extract_images opts"]
    unfolding ocr_submit_def Let_def by (auto split: prod.splits sum.splits)
qed

lemma ocr_try_trace:
  "prefix (trace w) (trace (snd (snd (ocr_try env lib opts fmt p w))))"
proof -
  obtain r u w1 where s: "ocr_submit env opts p w = (r, u, w1)"
    by (metis prod_cases3)
  have p1: "prefix (trace w) (trace w1)"
    using ocr_submit_trace [of w env opts p] s by simp
  show ?thesis
  proof (cases r)
    case (Inl e)
    then show ?thesis using s p1 by (simp add: ocr_try_def)
  next
    case (Inr response)
    have "prefix (trace w1) (trace (snd (ocr_output env lib opts fmt response w1)))"
      by (rule ocr_output_trace)
    then have "prefix (trace w) (trace (snd (ocr_output env lib opts fmt response w1)))"
      using p1 by (rule prefix_order.trans [rotated])
    then show ?thesis using s Inr by (auto simp add: ocr_try_def split: prod.splits)
  qed
qed

lemma cleanup_trace: "prefix (trace w) (trace (cleanup env uploaded_file w))"
  by (simp add: cleanup_def trace_call split: option.splits)

lemma ocr_pdf_client_first:
  assumes "validate_options (opt_api_key opts) (opt_output opts) (opt_output_dir opts)
         (opt_json opts) (opt_extract_images opts) (opt_inline_images opts) = Inr ()"
  shows "prefix (trace w @ [Mistral (the (opt_api_key opts))]) (trace (snd (ocr_pdf env lib opts w)))"
proof -
  define w0 where "w0 = call (Mistral (the (opt_api_key opts))) w"
  define fmt where "fmt = (if opt_json opts then ''json'' else if opt_html opts then ''html''
                  else ''markdown'')"
  obtain r u w1 where t: "ocr_try env lib opts fmt (Path_of (opt_file_path opts)) w0 = (r, u, w1)"
    by (metis prod_cases3)
  have "prefix (trace w0) (trace w1)"
    using ocr_try_trace [of w0 env lib opts fmt "Path_of (opt_file_path opts)"] t by simp
  then have "prefix (trace w0) (trace (cleanup env u w1))"
    using cleanup_trace prefix_order.trans by blast
  moreover have "trace w0 = trace w @ [Mistral (the (opt_api_key opts))]"
    by (simp add: w0_def trace_call)
  moreover have "snd (ocr_pdf env lib opts w) = cleanup env u w1"
    using assms t unfolding ocr_pdf_def Let_def w0_def [symmetric] fmt_def [symmetric]
    by (simp split: sum.splits)
  ultimately show ?thesis by simp
qed

section \<open>Validation of the options\<close>

text \<open>
  C5. The validation accepts exactly the option combinations that satisfy the five rules.
  When it rejects, \<open>ocr_pdf\<close> raises a \<open>ClickException\<close> and the world is unchanged: no
  client was constructed, no call made, no file written; \<open>--json\<close> with \<open>--output-dir\<close> is
  such a combination. When it accepts, the construction of the client is the first thing
  \<open>ocr_pdf\<close> does to the world.
\<close>

theorem validation_precedes_effects:
  "(validate_options api_key output output_dir json_flag extract_images inline_images = Inr ()
      \<longleftrightarrow> truthy api_key \<and> \<not> (truthy output \<and> truthy output_dir)
          \<and> \<not> (json_flag \<and> truthy output_dir) \<and> \<not> (extract_images \<and> \<not> truthy output_dir)
          \<and> \<not> (inline_images \<and> extract_images))
   \<and> (validate_options (opt_api_key opts) (opt_output opts) (opt_output_dir opts)
         (opt_json opts) (opt_extract_images opts) (opt_inline_images opts) \<noteq> Inr ()
       \<longrightarrow> (\<exists>msg. ocr_pdf env lib opts w = (Inl (ClickException msg), w)))
   \<and> (opt_json opts \<and> truthy (opt_output_dir opts)
       \<longrightarrow> (\<exists>msg. ocr_pdf env lib opts w = (Inl (ClickException msg), w)))
   \<and> (validate_options (opt_api_key opts) (opt_output opts) (opt_output_dir opts)
         (opt_json opts) (opt_extract_images opts) (opt_inline_images opts) = Inr ()
       \<longrightarrow> prefix (trace w @ [Mistral (the (opt_api_key opts))])
             (trace (snd (ocr_pdf env lib opts w))))"
proof (intro conjI impI)
  show "validate_options api_key output output_dir json_flag extract_images inline_images = Inr ()
      \<longleftrightarrow> truthy api_key \<and> \<not> (truthy output \<and> truthy output_dir)
          \<and> \<not> (json_flag \<and> truthy output_dir) \<and> \<not> (extract_images \<and> \<not> truthy output_dir)
          \<and> \<not> (inline_images \<and> extract_images)"
    by (auto simp add: validate_options_def)
next
  assume "validate_options (opt_api_key opts) (opt_output opts) (opt_output_dir opts)
         (opt_json opts) (opt_extract_images opts) (opt_inline_images opts) \<noteq> Inr ()"
  then show "\<exists>msg. ocr_pdf env lib opts w = (Inl (ClickException msg), w)"
    by (auto simp add: validate_options_def ocr_pdf_def split: if_splits)
next
  assume "opt_json opts \<and> truthy (opt_output_dir opts)"
  then show "\<exists>msg. ocr_pdf env lib opts w = (Inl (ClickException msg), w)"
    by (auto simp add: validate_options_def ocr_pdf_def)
next
  assume "validate_options (opt_api_key opts) (opt_output opts) (opt_output_dir opts)
         (opt_json opts) (opt_extract_images opts) (opt_inline_images opts) = Inr ()"
  then show "prefix (trace w @ [Mistral (the (opt_api_key opts))])
             (trace (snd (ocr_pdf env lib opts w)))"
    by (rule ocr_pdf_client_first)
qed

theorem validation_precedes_effects_witness:
  "ocr_pdf failing_env example_library
     (example_options\<lparr>opt_json := True, opt_output_dir := Some ''out''\<rparr>) empty_world
   = (Inl (ClickException ''JSON output is not supported with --output-dir''), empty_world)"
  using validation_precedes_effects [of "Some ''key''" None "Some ''out''" True False False
      "example_options\<lparr>opt_json := True, opt_output_dir := Some ''out''\<rparr>"
      failing_env example_library empty_world]
  by (simp add: example_options_def ocr_pdf_def validate_options_def truthy_def)

section \<open>Document submission and cleanup\<close>

lemma process_pdf_ocr_failure_cleanup:
  assumes "read_bytes env pdf_path = Inr content"
    and "files_upload env (path_stem pdf_path) content = Inr uploaded_file"
    and "files_get_signed_url env uploaded_file = Inr url"
    and "ocr_process env (DocumentURLChunk url) model include_images = Inl e"
    and "files_delete env uploaded_file = None"
  shows "process_pdf env pdf_path model include_images w
         = (Inl e,
            w\<lparr>trace := trace w @ [FilesUpload (path_stem pdf_path) content,
                 FilesGetSignedUrl uploaded_file 1,
                 OcrProcess (DocumentURLChunk url) model include_images,
                 FilesDelete uploaded_file]\<rparr>)"
  using assms by (simp add: process_pdf_def submit_uploaded_def call_def Let_def)

lemma ocr_pdf_ocr_failure_cleanup:
  assumes "validate_options (opt_api_key opts) (opt_output opts) (opt_output_dir opts)
         (opt_json opts) (opt_extract_images opts) (opt_inline_images opts) = Inr ()"
    and "str_lower (path_suffix (Path_of (opt_file_path opts))) \<notin> set [''.png'', ''.jpg'', ''.jpeg'']"
    and "read_bytes env (Path_of (opt_file_path opts)) = Inr content"
    and "files_upload env (path_stem (Path_of (opt_file_path opts))) content = Inr uploaded_file"
    and "files_get_signed_url env uploaded_file = Inr url"
    and "ocr_process env (DocumentURLChunk url) (opt_model opts)
           (opt_inline_images opts \<or> opt_extract_images opts) = Inl e"
  shows "length (filter (\<lambda>ev. ev = FilesDelete uploaded_file)
           (drop (length (trace w)) (trace (snd (ocr_pdf env lib opts w))))) = 1"
    and "files_delete env uploaded_file = None \<Longrightarrow>
         fst (ocr_pdf env lib opts w) = Inl (ClickException (''Error: '' @ str_exn e))"
  using assms
  by (simp_all add: ocr_pdf_def ocr_try_def ocr_submit_def process_pdf_def submit_uploaded_def
      call_def cleanup_def Let_def split: option.splits)

text \<open>
  C2. The upload and the signed URL succeed, the OCR call raises, and the delete in the
  handler of \<open>process_pdf\<close> raises too: the delete is invoked once, and the exception that
  reaches the caller is the one of the delete, not the one of the OCR call; \<open>ocr_pdf\<close>
  reports the delete's message.
\<close>

theorem delete_failure_masks_ocr_error:
  "process_pdf failing_env (Path_of ''doc.pdf'') ''mistral-ocr-latest'' False empty_world
   = (Inl (PyException ''SDKError'' ''delete failed''),
      \<lparr>trace = [FilesUpload ''doc'' ''ABC'', FilesGetSignedUrl ''file-1'' 1,
                OcrProcess (DocumentURLChunk ''https://signed'') ''mistral-ocr-latest'' False,
                FilesDelete ''file-1''],
       files = (\<lambda>p. None)\<rparr>)
   \<and> ocr_pdf failing_env example_library example_options empty_world
   = (Inl (ClickException ''Error: delete failed''),
      \<lparr>trace = [Mistral ''key'', FilesUpload ''doc'' ''ABC'', FilesGetSignedUrl ''file-1'' 1,
                OcrProcess (DocumentURLChunk ''https://signed'') ''mistral-ocr-latest'' False,
                FilesDelete ''file-1''],
       files = (\<lambda>p. None)\<rparr>)"
  by (simp add: process_pdf_def submit_uploaded_def failing_env_def empty_world_def call_def
      Path_of_def path_stem_def path_name_def rfind_def path_suffix_def ocr_pdf_def
      example_options_def validate_options_def truthy_def ocr_try_def ocr_submit_def
      str_lower_def lower_char_def cleanup_def)

text \<open>
  C6. For every input whose lower-cased suffix is \<open>.png\<close>, \<open>.jpg\<close> or \<open>.jpeg\<close> and whose
  bytes can be read, the submission is one OCR call on the data URI made of the fixed
  prefix \<open>data:image/jpeg;base64,\<close> and the base64 encoding of the bytes, whatever the
  suffix and the content; the payload decodes back to the bytes of the file.
\<close>

theorem image_submission_declares_jpeg:
  assumes "str_lower (path_suffix input_file) \<in> set [''.png'', ''.jpg'', ''.jpeg'']"
    and "read_bytes env input_file = Inr content"
  shows "ocr_submit env opts input_file w
         = (ocr_process env (ImageURLChunk (''data:image/jpeg;base64,'' @ b64encode content))
              (opt_model opts) (opt_inline_images opts \<or> opt_extract_images opts),
            None,
            call (OcrProcess (ImageURLChunk (''data:image/jpeg;base64,'' @ b64encode content))
              (opt_model opts) (opt_inline_images opts \<or> opt_extract_images opts)) w)
       \<and> process_image env input_file model include_images w
         = (ocr_process env (ImageURLChunk (''data:image/jpeg;base64,'' @ b64encode content))
              model include_images,
            call (OcrProcess (ImageURLChunk (''data:image/jpeg;base64,'' @ b64encode content))
              model include_images) w)
       \<and> b64decode (b64encode content) = Inr content"
  using assms
  by (simp add: ocr_submit_def process_image_def Let_def b64decode_b64encode)

theorem image_submission_declares_jpeg_witness:
  "ocr_submit working_env example_options (Path_of ''scans/page.PNG'') empty_world
   = (Inr empty_response, None,
      \<lparr>trace = [OcrProcess (ImageURLChunk ''data:image/jpeg;base64,QUJD'')
                 ''mistral-ocr-latest'' False],
       files = (\<lambda>p. None)\<rparr>)"
proof -
  have a: "str_lower (path_suffix (Path_of ''scans/page.PNG'')) \<in> set [''.png'', ''.jpg'', ''.jpeg'']"
    by code_simp
  have b: "read_bytes working_env (Path_of ''scans/page.PNG'') = Inr ''ABC''"
    by (simp add: working_env_def)
  show ?thesis
    using image_submission_declares_jpeg [OF a b, of example_options empty_world]
    by (simp add: working_env_def example_options_def empty_world_def call_def
        table_b2a_base64_def b64_alphabet_def)
qed

section \<open>The image loops\<close>

lemma str_split_not_Nil: "str_split sep s \<noteq> []"
  by (induction s) auto

lemma str_split_no_sep: "sep \<notin> set s \<Longrightarrow> str_split sep s = [s]"
  by (induction s) auto

lemma str_split_sep_tl: "sep \<in> set s \<Longrightarrow> tl (str_split sep s) \<noteq> []"
  by (induction s) (auto simp add: str_split_not_Nil)

lemma last_str_split:
  "last (str_split sep s) = rev (takeWhile (\<lambda>c. c \<noteq> sep) (rev s))"
proof (induction s)
  case Nil
  show ?case by simp
next
  case (Cons c cs)
  show ?case
  proof (cases "c = sep")
    case True
    then show ?thesis
      using Cons.IH by (simp add: str_split_not_Nil takeWhile_append)
  next
    case False
    show ?thesis
    proof (cases "sep \<in> set cs")
      case True
      then have "last (str_split sep (c # cs)) = last (str_split sep cs)"
        using False str_split_sep_tl [of sep cs] str_split_not_Nil [of sep cs]
        by (cases "str_split sep cs") auto
      then show ?thesis
        using True Cons.IH by (auto simp add: takeWhile_append)
    next
      case notin: False
      then show ?thesis
        using False by (simp add: str_split_no_sep takeWhile_append)
    qed
  qed
qed

lemma inline_images_loop_append:
  "inline_images_loop (xs @ ys) m =
     (case inline_images_loop xs m of
        Inl e \<Rightarrow> Inl e
      | Inr m' \<Rightarrow> inline_images_loop ys m')"
  by (induction xs arbitrary: m) (simp_all split: sum.splits)

lemma inline_pages_loop_concat:
  "inline_pages_loop ps m = inline_images_loop (concat (map page_images ps)) m"
  by (induction ps arbitrary: m) (simp_all add: inline_images_loop_append split: sum.splits)

lemma create_inline_image_map_images:
  "create_inline_image_map r w = (inline_images_loop (response_images r) [], r, w)"
  by (simp add: create_inline_image_map_def response_images_def inline_pages_loop_concat)

lemma inline_image_here:
  "image_id img = Some i \<Longrightarrow> image_base64 img = Some (JString d) \<Longrightarrow>
     inline_image img m = Inr (AList.update i (inline_image_data i d) m)"
  by (simp add: inline_image_def)

lemma inline_image_other:
  "inline_image img m = Inr m' \<Longrightarrow> \<not> (image_id img = Some k \<and> image_base64 img \<noteq> None) \<Longrightarrow>
     map_of m' k = map_of m k"
  by (auto simp add: inline_image_def update_conv' split: option.splits json_string.splits)

lemma inline_images_loop_Cons_Inr:
  "inline_images_loop (img # imgs) m = Inr m' \<Longrightarrow>
     \<exists>m1. inline_image img m = Inr m1 \<and> inline_images_loop imgs m1 = Inr m'"
  by (cases "inline_image img m") simp_all

lemma inline_images_loop_append_Inr:
  "inline_images_loop (xs @ ys) m = Inr m' \<Longrightarrow>
     \<exists>m1. inline_images_loop xs m = Inr m1 \<and> inline_images_loop ys m1 = Inr m'"
  by (cases "inline_images_loop xs m") (simp_all add: inline_images_loop_append)

lemma map_of_inline_images_loop_other:
  "inline_images_loop imgs m = Inr m' \<Longrightarrow>
     list_all (\<lambda>img. \<not> (image_id img = Some k \<and> image_base64 img \<noteq> None)) imgs \<Longrightarrow>
     map_of m' k = map_of m k"
proof (induction imgs arbitrary: m)
  case Nil
  then show ?case by simp
next
  case (Cons img imgs)
  obtain m1 where s: "inline_image img m = Inr m1" and l: "inline_images_loop imgs m1 = Inr m'"
    using inline_images_loop_Cons_Inr [OF Cons.prems(1)] by blast
  have c: "\<not> (image_id img = Some k \<and> image_base64 img \<noteq> None)"
    and r: "list_all (\<lambda>img. \<not> (image_id img = Some k \<and> image_base64 img \<noteq> None)) imgs"
    using Cons.prems(2) by simp_all
  have "map_of m1 k = map_of m k"
    using s c by (rule inline_image_other)
  moreover have "map_of m' k = map_of m1 k"
    using l r by (rule Cons.IH)
  ultimately show ?case by simp
qed

lemma inline_image_incomplete: "\<not> complete img \<Longrightarrow> inline_image img m = Inr m"
  by (auto simp add: complete_def inline_image_def split: option.splits)

lemma extract_image_incomplete:
  "\<not> complete img \<Longrightarrow> extract_image env d img st w = (Inr st, w)"
  by (auto simp add: complete_def extract_image_def split: option.splits)

lemma extract_images_loop_append:
  "extract_images_loop env d (xs @ ys) st w =
     (case extract_images_loop env d xs st w of
        (Inl e, w') \<Rightarrow> (Inl e, w')
      | (Inr st', w') \<Rightarrow> extract_images_loop env d ys st' w')"
  by (induction xs arbitrary: st w) (auto split: prod.splits sum.splits)

lemma extract_images_loop_skip:
  "\<not> complete img \<Longrightarrow>
     extract_images_loop env d (xs @ img # ys) st w = extract_images_loop env d (xs @ ys) st w"
  by (simp add: extract_images_loop_append extract_image_incomplete
      split: prod.splits sum.splits)

lemma extract_pages_loop_append:
  "extract_pages_loop env d (ps @ qs) st w =
     (case extract_pages_loop env d ps st w of
        (Inl e, w') \<Rightarrow> (Inl e, w')
      | (Inr st', w') \<Rightarrow> extract_pages_loop env d qs st' w')"
  by (induction ps arbitrary: st w) (auto split: prod.splits sum.splits)

lemma inline_images_loop_skip:
  "\<not> complete img \<Longrightarrow>
     inline_images_loop (xs @ img # ys) m = inline_images_loop (xs @ ys) m"
  by (simp add: inline_images_loop_append inline_image_incomplete split: sum.splits)

lemma inline_pages_loop_append:
  "inline_pages_loop (ps @ qs) m =
     (case inline_pages_loop ps m of
        Inl e \<Rightarrow> Inl e
      | Inr m' \<Rightarrow> inline_pages_loop qs m')"
  by (induction ps arbitrary: m) (simp_all split: sum.splits)

text \<open>
  C4, as amended. When inline mode returns a map, an image with both keys, after which no
  image with both keys has the same identifier, is mapped to its data when the data starts
  with \<open>data:\<close>, and otherwise to \<open>data:image/\<close>, the extension, \<open>;base64,\<close> and the data;
  the extension is the lower-cased text after the last dot of the identifier, and \<open>jpeg\<close>
  when the identifier has no dot. Inline mode returns a map unless an image with both keys
  holds \<open>null\<close> for its data.
\<close>

theorem inline_map_data_uri:
  assumes "create_inline_image_map r w = (Inr image_map, r', w')"
    and "response_images r = before @ img # after"
    and "image_id img = Some i" and "image_base64 img = Some (JString d)"
    and "\<forall>img' \<in> set after. \<not> (image_id img' = Some i \<and> image_base64 img' \<noteq> None)"
  shows "map_of image_map i
         = Some (if prefix ''data:'' d then d
                 else ''data:image/''
                      @ (if CHR ''.'' \<in> set i
                         then str_lower (rev (takeWhile (\<lambda>c. c \<noteq> CHR ''.'') (rev i)))
                         else ''jpeg'')
                      @ '';base64,'' @ d)"
proof -
  have "inline_images_loop (before @ img # after) [] = Inr image_map"
    using assms(1,2) by (simp add: create_inline_image_map_images)
  then obtain m1 where "inline_images_loop (img # after) m1 = Inr image_map"
    using inline_images_loop_append_Inr by blast
  then have l: "inline_images_loop after (AList.update i (inline_image_data i d) m1)
                  = Inr image_map"
    using assms(3,4) by (simp add: inline_image_here)
  have a: "list_all (\<lambda>img'. \<not> (image_id img' = Some i \<and> image_base64 img' \<noteq> None)) after"
    using assms(5) by (simp only: list_all_iff)
  have "map_of image_map i = map_of (AList.update i (inline_image_data i d) m1) i"
    using l a by (rule map_of_inline_images_loop_other)
  then have "map_of image_map i = Some (inline_image_data i d)"
    by (simp add: update_conv')
  then show ?thesis
    by (simp add: inline_image_data_def startswith_def last_str_split Let_def)
qed

theorem inline_map_data_uri_witness:
  "create_inline_image_map
      \<lparr>pages = Some [\<lparr>markdown = Some ''![a](img-1.PNG)'',
         images = Some [\<lparr>image_id = Some ''img-1.PNG'',
                         image_base64 = Some (JString ''QUJD'')\<rparr>]\<rparr>]\<rparr> empty_world
   = (Inr [(''img-1.PNG'', ''data:image/png;base64,QUJD'')],
      \<lparr>pages = Some [\<lparr>markdown = Some ''![a](img-1.PNG)'',
         images = Some [\<lparr>image_id = Some ''img-1.PNG'',
                         image_base64 = Some (JString ''QUJD'')\<rparr>]\<rparr>]\<rparr>, empty_world)
   \<and> map_of [(''img-1.PNG'', ''data:image/png;base64,QUJD'')] ''img-1.PNG''
       = Some (''data:image/'' @ str_lower ''PNG'' @ '';base64,QUJD'')"
proof -
  have l: "str_lower ''PNG'' = ''png''"
    by code_simp
  have h: "create_inline_image_map
      \<lparr>pages = Some [\<lparr>markdown = Some ''![a](img-1.PNG)'',
         images = Some [\<lparr>image_id = Some ''img-1.PNG'',
                         image_base64 = Some (JString ''QUJD'')\<rparr>]\<rparr>]\<rparr> empty_world
   = (Inr [(''img-1.PNG'', ''data:image/png;base64,QUJD'')],
      \<lparr>pages = Some [\<lparr>markdown = Some ''![a](img-1.PNG)'',
         images = Some [\<lparr>image_id = Some ''img-1.PNG'',
                         image_base64 = Some (JString ''QUJD'')\<rparr>]\<rparr>]\<rparr>, empty_world)"
    by (simp add: create_inline_image_map_def response_pages_def page_images_def
        inline_image_def inline_image_data_def startswith_def l)
  have "map_of [(''img-1.PNG'', ''data:image/png;base64,QUJD'')] ''img-1.PNG''
       = Some (''data:image/'' @ str_lower ''PNG'' @ '';base64,QUJD'')"
    using inline_map_data_uri [OF h, where before = "[]" and after = "[]"
        and img = "\<lparr>image_id = Some ''img-1.PNG'', image_base64 = Some (JString ''QUJD'')\<rparr>"
        and i = "''img-1.PNG''" and d = "''QUJD''"]
    by (simp add: response_images_def response_pages_def page_images_def)
  then show ?thesis
    using h by simp
qed

text \<open>
  C4 as stated fails where it promises a default for an extension that is absent or not
  recognized: no extension is checked. The identifier \<open>figure.\<close>, with nothing after its
  dot, yields the type \<open>image/\<close>, and \<open>scan.unknown\<close> yields \<open>image/unknown\<close>; neither
  yields \<open>image/jpeg\<close>.
\<close>

theorem inline_mime_default_counterexample:
  "fst (create_inline_image_map
      \<lparr>pages = Some [\<lparr>markdown = Some [],
         images = Some [\<lparr>image_id = Some ''figure.'', image_base64 = Some (JString ''QUJD'')\<rparr>,
                        \<lparr>image_id = Some ''scan.unknown'',
                          image_base64 = Some (JString ''QUJD'')\<rparr>]\<rparr>]\<rparr> empty_world)
   = Inr [(''figure.'', ''data:image/;base64,QUJD''),
          (''scan.unknown'', ''data:image/unknown;base64,QUJD'')]
   \<and> inline_image_data ''figure.'' ''QUJD'' \<noteq> ''data:image/jpeg;base64,QUJD''
   \<and> inline_image_data ''scan.unknown'' ''QUJD'' \<noteq> ''data:image/jpeg;base64,QUJD''"
  by (simp add: create_inline_image_map_def response_pages_def page_images_def
      inline_image_def inline_image_data_def startswith_def str_lower_def lower_char_def)

section \<open>Images without identifier or data\<close>

text \<open>
  An image whose dictionary lacks the key \<open>id\<close> or the key \<open>image_base64\<close> is passed over
  by both loops: the step leaves the map, the count and the world as they were, and both
  functions return, and do, on a response that holds such an image exactly what they
  return and do on the response without it.
\<close>

lemma absent_key_images_skipped:
  assumes "image_id img = None \<or> image_base64 img = None"
  shows "inline_image img image_map = Inr image_map
       \<and> extract_image env image_dir img (image_map, image_count) w
           = (Inr (image_map, image_count), w)
       \<and> fst (create_inline_image_map
                \<lparr>pages = Some (ps @ p\<lparr>images := Some (xs @ img # ys)\<rparr> # qs)\<rparr> w)
           = fst (create_inline_image_map
                    \<lparr>pages = Some (ps @ p\<lparr>images := Some (xs @ ys)\<rparr> # qs)\<rparr> w)
       \<and> extract_images_to_dir env
             \<lparr>pages = Some (ps @ p\<lparr>images := Some (xs @ img # ys)\<rparr> # qs)\<rparr> output_dir w
           = extract_images_to_dir env
               \<lparr>pages = Some (ps @ p\<lparr>images := Some (xs @ ys)\<rparr> # qs)\<rparr> output_dir w"
proof -
  have c: "\<not> complete img"
    using assms by (auto simp add: complete_def)
  have 1: "inline_image img image_map = Inr image_map"
    using c by (rule inline_image_incomplete)
  have 2: "extract_image env image_dir img (image_map, image_count) w
           = (Inr (image_map, image_count), w)"
    using c by (rule extract_image_incomplete)
  have 3: "fst (create_inline_image_map
                \<lparr>pages = Some (ps @ p\<lparr>images := Some (xs @ img # ys)\<rparr> # qs)\<rparr> w)
           = fst (create_inline_image_map
                    \<lparr>pages = Some (ps @ p\<lparr>images := Some (xs @ ys)\<rparr> # qs)\<rparr> w)"
    using c
    by (simp add: create_inline_image_map_def response_pages_def inline_pages_loop_append
        page_images_def inline_images_loop_skip split: sum.splits)
  have 4: "extract_images_to_dir env
             \<lparr>pages = Some (ps @ p\<lparr>images := Some (xs @ img # ys)\<rparr> # qs)\<rparr> output_dir w
           = extract_images_to_dir env
               \<lparr>pages = Some (ps @ p\<lparr>images := Some (xs @ ys)\<rparr> # qs)\<rparr> output_dir w"
    using c
    by (simp add: extract_images_to_dir_def response_pages_def extract_pages_loop_append
        page_images_def extract_images_loop_skip split: prod.splits sum.splits)
  show ?thesis
    using 1 2 3 4 by blast
qed

text \<open>
  C8. The claim fails for an image that lacks its data in the way the service writes it:
  the key \<open>image_base64\<close> present with the value \<open>null\<close>. Both loops test the two keys for
  presence only and then call \<open>startswith\<close> on the value (lines 122 and 153), so the image
  is not skipped: the step of either mode raises \<open>AttributeError\<close>, and on the response
  whose only image is \<open>{"id": "i.png", "image_base64": null}\<close> inline mode, extract mode
  and the stage of the command that calls them all end with that error, for every
  environment, with no file written.
\<close>

theorem null_image_data_raises:
  "inline_image \<lparr>image_id = Some i, image_base64 = Some JNull\<rparr> image_map
     = Inl attribute_error
   \<and> extract_image env image_dir \<lparr>image_id = Some i, image_base64 = Some JNull\<rparr> st w
       = (Inl attribute_error, w)
   \<and> create_inline_image_map
       \<lparr>pages = Some [\<lparr>markdown = Some ''x'',
          images = Some [\<lparr>image_id = Some ''i.png'', image_base64 = Some JNull\<rparr>]\<rparr>]\<rparr> w
       = (Inl attribute_error,
          \<lparr>pages = Some [\<lparr>markdown = Some ''x'',
             images = Some [\<lparr>image_id = Some ''i.png'', image_base64 = Some JNull\<rparr>]\<rparr>]\<rparr>, w)
   \<and> extract_images_to_dir env
       \<lparr>pages = Some [\<lparr>markdown = Some ''x'',
          images = Some [\<lparr>image_id = Some ''i.png'', image_base64 = Some JNull\<rparr>]\<rparr>]\<rparr>
       ''out'' w
       = (Inl attribute_error, w)
   \<and> ocr_output env lib (example_options\<lparr>opt_output_dir := None, opt_inline_images := True\<rparr>)
       ''markdown''
       \<lparr>pages = Some [\<lparr>markdown = Some ''x'',
          images = Some [\<lparr>image_id = Some ''i.png'', image_base64 = Some JNull\<rparr>]\<rparr>]\<rparr> w
       = (Inl attribute_error, w)"
  by (simp add: inline_image_def extract_image_def create_inline_image_map_def
      extract_images_to_dir_def response_pages_def page_images_def ocr_output_def truthy_def
      example_options_def)

section \<open>Purity of the inline map\<close>

lemma inline_image_keys:
  assumes a: "inline_image img m = Inr m'"
  shows "fst ` set m' = fst ` set m \<union> {k. image_id img = Some k \<and> image_base64 img \<noteq> None}"
proof (cases "image_id img")
  case None
  then show ?thesis
    using a by (simp add: inline_image_def)
next
  case (Some i)
  show ?thesis
  proof (cases "image_base64 img")
    case None
    then show ?thesis
      using a Some by (simp add: inline_image_def)
  next
    case outer: (Some v)
    show ?thesis
    proof (cases v)
      case JNull
      then show ?thesis
        using a Some outer by (simp add: inline_image_def)
    next
      case (JString d)
      then have "m' = AList.update i (inline_image_data i d) m"
        using a Some outer by (simp add: inline_image_def)
      then have "fst ` set m' = {i} \<union> fst ` set m"
        by (simp only: dom_update)
      then show ?thesis
        using Some outer by auto
    qed
  qed
qed

lemma inline_images_loop_keys:
  "inline_images_loop imgs m = Inr m' \<Longrightarrow>
     fst ` set m'
       = fst ` set m \<union> {k. \<exists>img \<in> set imgs. image_id img = Some k \<and> image_base64 img \<noteq> None}"
proof (induction imgs arbitrary: m)
  case Nil
  then show ?case by auto
next
  case (Cons img imgs)
  obtain m1 where s: "inline_image img m = Inr m1" and l: "inline_images_loop imgs m1 = Inr m'"
    using inline_images_loop_Cons_Inr [OF Cons.prems] by blast
  have "fst ` set m1 = fst ` set m \<union> {k. image_id img = Some k \<and> image_base64 img \<noteq> None}"
    using s by (rule inline_image_keys)
  moreover have "fst ` set m'
       = fst ` set m1 \<union> {k. \<exists>img \<in> set imgs. image_id img = Some k \<and> image_base64 img \<noteq> None}"
    using l by (rule Cons.IH)
  ultimately show ?case by auto
qed

lemma inline_image_distinct:
  "inline_image img m = Inr m' \<Longrightarrow> distinct (map fst m) \<Longrightarrow> distinct (map fst m')"
  by (auto simp add: inline_image_def distinct_update split: option.splits json_string.splits)

lemma inline_images_loop_distinct:
  "inline_images_loop imgs m = Inr m' \<Longrightarrow> distinct (map fst m) \<Longrightarrow> distinct (map fst m')"
proof (induction imgs arbitrary: m)
  case Nil
  then show ?case by simp
next
  case (Cons img imgs)
  obtain m1 where s: "inline_image img m = Inr m1" and l: "inline_images_loop imgs m1 = Inr m'"
    using inline_images_loop_Cons_Inr [OF Cons.prems(1)] by blast
  have "distinct (map fst m1)"
    using s Cons.prems(2) by (rule inline_image_distinct)
  with l show ?case by (rule Cons.IH)
qed

lemma inline_image_returns:
  "\<not> (image_id img \<noteq> None \<and> image_base64 img = Some JNull) \<Longrightarrow>
     \<exists>m1. inline_image img m = Inr m1"
  by (auto simp add: inline_image_def split: option.splits json_string.splits)

lemma inline_images_loop_returns:
  "(\<exists>m'. inline_images_loop imgs m = Inr m')
     = list_all (\<lambda>img. \<not> (image_id img \<noteq> None \<and> image_base64 img = Some JNull)) imgs"
proof (induction imgs arbitrary: m)
  case Nil
  show ?case by simp
next
  case (Cons img imgs)
  show ?case
  proof (cases "image_id img \<noteq> None \<and> image_base64 img = Some JNull")
    case True
    then have "inline_image img m = Inl attribute_error"
      by (auto simp add: inline_image_def)
    then show ?thesis
      using True by simp
  next
    case False
    then obtain m1 where "inline_image img m = Inr m1"
      using inline_image_returns [of img m] by blast
    then show ?thesis
      using False Cons.IH [of m1] by simp
  qed
qed

lemma inline_images_loop_error:
  "inline_images_loop imgs m = Inl e \<Longrightarrow> e = attribute_error"
proof (induction imgs arbitrary: m)
  case Nil
  then show ?case by simp
next
  case (Cons img imgs)
  show ?case
  proof (cases "inline_image img m")
    case (Inl e')
    then have "e' = attribute_error"
      by (auto simp add: inline_image_def split: option.splits json_string.splits)
    then show ?thesis
      using Inl Cons.prems by simp
  next
    case (Inr m1)
    then show ?thesis
      using Cons.prems Cons.IH [of m1] by simp
  qed
qed

text \<open>
  C9. An invocation of the builder that starts in any world with a response returns the
  same response and the same world: it performs no call, writes no file and leaves the
  response as it read it. A second invocation, on the response and in the world left by
  the first, returns the same result again, and so does an invocation in any other
  world: the result depends on the response alone. The result is pinned: it is a map
  exactly when no image with an identifier holds \<open>null\<close> for its data, and
  \<open>AttributeError\<close> otherwise; the keys of the map are distinct and are the identifiers of
  the images that carry both keys.
\<close>

theorem inline_map_pure_idempotent:
  assumes "create_inline_image_map r w = (res, r', w')"
  shows "r' = r \<and> w' = w
       \<and> create_inline_image_map r' w' = (res, r', w')
       \<and> fst (create_inline_image_map r w2) = res
       \<and> (case res of
            Inl e \<Rightarrow>
              e = attribute_error
              \<and> \<not> list_all (\<lambda>img. \<not> (image_id img \<noteq> None \<and> image_base64 img = Some JNull))
                     (response_images r)
          | Inr image_map \<Rightarrow>
              distinct (map fst image_map)
              \<and> set (map fst image_map)
                  = {i. \<exists>img \<in> set (response_images r).
                          image_id img = Some i \<and> image_base64 img \<noteq> None}
              \<and> list_all (\<lambda>img. \<not> (image_id img \<noteq> None \<and> image_base64 img = Some JNull))
                   (response_images r))"
proof -
  have e: "res = inline_images_loop (response_images r) []" and "r' = r" and "w' = w"
    using assms by (auto simp add: create_inline_image_map_images)
  then have a: "r' = r \<and> w' = w \<and> create_inline_image_map r' w' = (res, r', w')
       \<and> fst (create_inline_image_map r w2) = res"
    by (simp add: create_inline_image_map_images)
  have b: "(case res of
            Inl e \<Rightarrow>
              e = attribute_error
              \<and> \<not> list_all (\<lambda>img. \<not> (image_id img \<noteq> None \<and> image_base64 img = Some JNull))
                     (response_images r)
          | Inr image_map \<Rightarrow>
              distinct (map fst image_map)
              \<and> set (map fst image_map)
                  = {i. \<exists>img \<in> set (response_images r).
                          image_id img = Some i \<and> image_base64 img \<noteq> None}
              \<and> list_all (\<lambda>img. \<not> (image_id img \<noteq> None \<and> image_base64 img = Some JNull))
                   (response_images r))"
  proof (cases res)
    case (Inl ex)
    have l: "inline_images_loop (response_images r) [] = Inl ex"
      using e Inl by simp
    have "ex = attribute_error"
      using l by (rule inline_images_loop_error)
    moreover have "\<not> list_all (\<lambda>img. \<not> (image_id img \<noteq> None \<and> image_base64 img = Some JNull))
                     (response_images r)"
      using l inline_images_loop_returns [of "response_images r" "[]"] by auto
    ultimately show ?thesis
      using Inl by simp
  next
    case (Inr image_map)
    have l: "inline_images_loop (response_images r) [] = Inr image_map"
      using e Inr by simp
    have "distinct (map fst image_map)"
      using l by (rule inline_images_loop_distinct) simp
    moreover have "set (map fst image_map)
                  = {i. \<exists>img \<in> set (response_images r).
                          image_id img = Some i \<and> image_base64 img \<noteq> None}"
      using inline_images_loop_keys [OF l] by simp
    moreover have "list_all (\<lambda>img. \<not> (image_id img \<noteq> None \<and> image_base64 img = Some JNull))
                   (response_images r)"
      using l inline_images_loop_returns [of "response_images r" "[]"] by blast
    ultimately show ?thesis
      using Inr by simp
  qed
  show ?thesis
    using a b by blast
qed

theorem inline_map_pure_idempotent_witness:
  "create_inline_image_map
      \<lparr>pages = Some [\<lparr>markdown = Some ''![a](a.png)'',
         images = Some [\<lparr>image_id = Some ''a.png'', image_base64 = Some (JString ''QUJD'')\<rparr>,
                        \<lparr>image_id = Some ''a.png'', image_base64 = Some (JString ''QUJE'')\<rparr>,
                        \<lparr>image_id = None, image_base64 = Some JNull\<rparr>]\<rparr>]\<rparr> empty_world
   = (Inr [(''a.png'', ''data:image/png;base64,QUJE'')],
      \<lparr>pages = Some [\<lparr>markdown = Some ''![a](a.png)'',
         images = Some [\<lparr>image_id = Some ''a.png'', image_base64 = Some (JString ''QUJD'')\<rparr>,
                        \<lparr>image_id = Some ''a.png'', image_base64 = Some (JString ''QUJE'')\<rparr>,
                        \<lparr>image_id = None, image_base64 = Some JNull\<rparr>]\<rparr>]\<rparr>, empty_world)
   \<and> fst (create_inline_image_map
      \<lparr>pages = Some [\<lparr>markdown = Some ''![a](a.png)'',
         images = Some [\<lparr>image_id = Some ''a.png'', image_base64 = Some (JString ''QUJD'')\<rparr>,
                        \<lparr>image_id = Some ''a.png'', image_base64 = Some (JString ''QUJE'')\<rparr>,
                        \<lparr>image_id = None, image_base64 = Some JNull\<rparr>]\<rparr>]\<rparr>
      \<lparr>trace = [Echo ''x''], files = (\<lambda>p. None)\<rparr>)
     = Inr [(''a.png'', ''data:image/png;base64,QUJE'')]"
proof -
  have l: "str_lower ''png'' = ''png''"
    by code_simp
  have h: "create_inline_image_map
      \<lparr>pages = Some [\<lparr>markdown = Some ''![a](a.png)'',
         images = Some [\<lparr>image_id = Some ''a.png'', image_base64 = Some (JString ''QUJD'')\<rparr>,
                        \<lparr>image_id = Some ''a.png'', image_base64 = Some (JString ''QUJE'')\<rparr>,
                        \<lparr>image_id = None, image_base64 = Some JNull\<rparr>]\<rparr>]\<rparr> empty_world
   = (Inr [(''a.png'', ''data:image/png;base64,QUJE'')],
      \<lparr>pages = Some [\<lparr>markdown = Some ''![a](a.png)'',
         images = Some [\<lparr>image_id = Some ''a.png'', image_base64 = Some (JString ''QUJD'')\<rparr>,
                        \<lparr>image_id = Some ''a.png'', image_base64 = Some (JString ''QUJE'')\<rparr>,
                        \<lparr>image_id = None, image_base64 = Some JNull\<rparr>]\<rparr>]\<rparr>, empty_world)"
    by (simp add: create_inline_image_map_def response_pages_def page_images_def
        inline_image_def inline_image_data_def startswith_def l)
  show ?thesis
    using inline_map_pure_idempotent [OF h, where ?w2.0 = "\<lparr>trace = [Echo ''x''], files = (\<lambda>p. None)\<rparr>"]
      h
    by simp
qed

section \<open>Extraction to a directory\<close>

lemma extract_pages_loop_concat:
  "extract_pages_loop env d ps st w
     = extract_images_loop env d (concat (map page_images ps)) st w"
  by (induction ps arbitrary: st w)
    (auto simp add: extract_images_loop_append split: prod.splits sum.splits)

lemma extract_image_complete:
  assumes "extract_image env d img st w = (Inr st', w')"
    and "image_id img = Some i" and "image_base64 img = Some (JString data)"
  shows "\<exists>image_data content.
           strip_data_uri data = Inr image_data \<and> b64decode image_data = Inr content
           \<and> open_wb env (truediv d i) = None
           \<and> st' = (AList.update i i (fst st), snd st + 1)
           \<and> w' = put_file env (truediv d i) content w"
  using assms
  by (auto simp add: extract_image_def Let_def split: sum.splits option.splits)

lemma extract_image_files_other:
  assumes "extract_image env d img st w = (r, w')"
    and "complete img \<longrightarrow> resolve env (truediv d (the (image_id img))) \<noteq> p"
  shows "files w' p = files w p"
  using assms
  by (auto simp add: extract_image_def complete_def put_file_def Let_def
      split: sum.splits option.splits json_string.splits)

lemma extract_images_loop_files_other:
  assumes "extract_images_loop env d imgs st w = (r, w')"
    and "\<forall>img \<in> set imgs. complete img \<longrightarrow>
           resolve env (truediv d (the (image_id img))) \<noteq> p"
  shows "files w' p = files w p"
  using assms
proof (induction imgs arbitrary: st w)
  case Nil
  then show ?case by simp
next
  case (Cons img imgs)
  obtain r1 w1 where s: "extract_image env d img st w = (r1, w1)"
    by (cases "extract_image env d img st w")
  have f: "files w1 p = files w p"
    using extract_image_files_other [OF s] Cons.prems(2) by simp
  show ?case
  proof (cases r1)
    case (Inl e)
    then show ?thesis using Cons.prems(1) s f by simp
  next
    case (Inr st1)
    then have "extract_images_loop env d imgs st1 w1 = (r, w')"
      using Cons.prems(1) s by simp
    then have "files w' p = files w1 p"
      using Cons.IH Cons.prems(2) by simp
    then show ?thesis using f by simp
  qed
qed

lemma extract_image_binding:
  assumes "extract_image env d img st w = (Inr st', w')"
    and "map_of (fst st) i = Some i"
  shows "map_of (fst st') i = Some i"
  using assms
  by (auto simp add: extract_image_def Let_def update_conv'
      split: sum.splits option.splits json_string.splits)

lemma extract_images_loop_binding:
  assumes "extract_images_loop env d imgs st w = (Inr st', w')"
    and "map_of (fst st) i = Some i"
  shows "map_of (fst st') i = Some i"
  using assms
proof (induction imgs arbitrary: st w)
  case Nil
  then show ?case by simp
next
  case (Cons img imgs)
  obtain r1 w1 where s: "extract_image env d img st w = (r1, w1)"
    by (cases "extract_image env d img st w")
  show ?case
  proof (cases r1)
    case (Inl e)
    then show ?thesis using Cons.prems(1) s by simp
  next
    case (Inr st1)
    then have l: "extract_images_loop env d imgs st1 w1 = (Inr st', w')"
      using Cons.prems(1) s by simp
    have s1: "extract_image env d img st w = (Inr st1, w1)"
      using s Inr by simp
    have "map_of (fst st1) i = Some i"
      by (rule extract_image_binding [OF s1 Cons.prems(2)])
    then show ?thesis
      by (rule Cons.IH [OF l])
  qed
qed

lemma update_identity_map:
  "list_all (\<lambda>p. fst p = snd p) m \<Longrightarrow> list_all (\<lambda>p. fst p = snd p) (AList.update i i m)"
  by (induction m) auto

lemma extract_image_identity_map:
  assumes "extract_image env d img st w = (Inr st', w')"
    and "list_all (\<lambda>p. fst p = snd p) (fst st)"
  shows "list_all (\<lambda>p. fst p = snd p) (fst st')"
proof (cases "complete img")
  case True
  then obtain i v where i: "image_id img = Some i" and v: "image_base64 img = Some v"
    by (auto simp add: complete_def)
  have "v \<noteq> JNull"
    using assms(1) i v by (auto simp add: extract_image_def)
  then obtain data where data: "image_base64 img = Some (JString data)"
    using v by (cases v) simp_all
  have "fst st' = AList.update i i (fst st)"
    using extract_image_complete [OF assms(1) i data] by auto
  then show ?thesis
    using update_identity_map [OF assms(2)] by simp
next
  case False
  then show ?thesis
    using assms by (simp add: extract_image_incomplete)
qed

lemma extract_images_loop_identity_map:
  assumes "extract_images_loop env d imgs st w = (Inr st', w')"
    and "list_all (\<lambda>p. fst p = snd p) (fst st)"
  shows "list_all (\<lambda>p. fst p = snd p) (fst st')"
  using assms
proof (induction imgs arbitrary: st w)
  case Nil
  then show ?case by simp
next
  case (Cons img imgs)
  obtain r1 w1 where s: "extract_image env d img st w = (r1, w1)"
    by (cases "extract_image env d img st w")
  show ?case
  proof (cases r1)
    case (Inl e)
    then show ?thesis using Cons.prems(1) s by simp
  next
    case (Inr st1)
    then have l: "extract_images_loop env d imgs st1 w1 = (Inr st', w')"
      using Cons.prems(1) s by simp
    have s1: "extract_image env d img st w = (Inr st1, w1)"
      using s Inr by simp
    have "list_all (\<lambda>p. fst p = snd p) (fst st1)"
      by (rule extract_image_identity_map [OF s1 Cons.prems(2)])
    then show ?thesis
      by (rule Cons.IH [OF l])
  qed
qed

lemma strip_data_uri_result:
  "strip_data_uri d = Inr image_data \<Longrightarrow>
     image_data = (if startswith d ''data:image/'' then tl (dropWhile (\<lambda>c. c \<noteq> CHR '','') d)
                   else d)"
  by (cases "startswith d ''data:image/''")
    (simp_all add: strip_data_uri_def split_once_def Let_def split: if_splits)

lemma truediv_plain_name:
  assumes "CHR ''/'' \<notin> set i" and "i \<noteq> []" and "i \<noteq> ''.''"
  shows "truediv d i = Path (is_absolute d) (parts d @ [i])"
proof -
  have "\<not> prefix ''/'' i"
    using assms(1) by (cases i) auto
  moreover have "str_split (CHR ''/'') i = [i]"
    using assms(1) by (rule str_split_no_sep)
  ultimately show ?thesis
    using assms(2,3) by (simp add: truediv_def Path_of_def)
qed

text \<open>
  C3, as amended. When the extraction returns without raising, every image with both
  keys, after which no image with both keys is written to the same file, has its file at
  the path \<open>Path(output_dir) / id\<close>: the data, cut after its first comma when it starts with
  \<open>data:image/\<close> and whole otherwise, decodes without error, and the file that the system
  opens for that path holds the decoded bytes. Two images are written to the same file
  when the system resolves their paths to one file, whether or not the identifiers are
  equal. When the identifier is a plain file name, the path is the entry of that name in
  the target directory. When the data so cut is the base64 encoding of some bytes, the
  file holds these bytes, and encoding the file again gives the data back. The map binds
  the identifier to itself, and every key of the map to itself.
\<close>

theorem extract_writes_decoded_images:
  assumes "extract_images_to_dir env r output_dir w = (Inr image_map, w')"
    and "response_images r = before @ img # after"
    and "image_id img = Some i" and "image_base64 img = Some (JString d)"
    and "\<forall>img' \<in> set after. complete img' \<longrightarrow>
           resolve env (truediv (Path_of output_dir) (the (image_id img')))
             \<noteq> resolve env (truediv (Path_of output_dir) i)"
  shows "\<exists>content.
           b64decode (if startswith d ''data:image/'' then tl (dropWhile (\<lambda>c. c \<noteq> CHR '','') d) else d)
             = Inr content
           \<and> files w' (resolve env (truediv (Path_of output_dir) i)) = Some content
           \<and> (CHR ''/'' \<notin> set i \<and> i \<noteq> [] \<and> i \<noteq> ''.'' \<longrightarrow>
                truediv (Path_of output_dir) i
                  = Path (is_absolute (Path_of output_dir)) (parts (Path_of output_dir) @ [i]))
           \<and> (\<forall>bs. (if startswith d ''data:image/'' then tl (dropWhile (\<lambda>c. c \<noteq> CHR '','') d) else d)
                      = b64encode bs
                    \<longrightarrow> content = bs \<and> b64encode content
                      = (if startswith d ''data:image/'' then tl (dropWhile (\<lambda>c. c \<noteq> CHR '','') d) else d))
           \<and> map_of image_map i = Some i
           \<and> (list_all (\<lambda>p. fst p = snd p) image_map)"
proof -
  define dir where "dir = Path_of output_dir"
  define data where
    "data = (if startswith d ''data:image/'' then tl (dropWhile (\<lambda>c. c \<noteq> CHR '','') d) else d)"
  have "extract_pages_loop env dir (response_pages r) ([], 0) w
        = extract_images_loop env dir (before @ img # after) ([], 0) w"
    unfolding extract_pages_loop_concat assms(2) [symmetric] response_images_def ..
  then have "(case extract_images_loop env dir (before @ img # after) ([], 0) w of
                (Inl e, w') \<Rightarrow> (Inl e, w')
              | (Inr (image_map, image_count), w') \<Rightarrow> (Inr image_map, w'))
             = (Inr image_map, w')"
    using assms(1) by (simp add: extract_images_to_dir_def dir_def)
  then obtain cnt where loop:
    "extract_images_loop env dir (before @ img # after) ([], 0) w = (Inr (image_map, cnt), w')"
    by (simp split: prod.splits sum.splits)
  obtain r1 w1 where l1': "extract_images_loop env dir before ([], 0) w = (r1, w1)"
    by (cases "extract_images_loop env dir before ([], 0) w")
  obtain st1 where r1: "r1 = Inr st1"
    using loop l1' by (cases r1) (simp_all add: extract_images_loop_append)
  have l1: "extract_images_loop env dir before ([], 0) w = (Inr st1, w1)"
    using l1' r1 by simp
  have l2: "extract_images_loop env dir (img # after) st1 w1 = (Inr (image_map, cnt), w')"
    using loop l1 by (simp add: extract_images_loop_append)
  obtain r2 w2 where s': "extract_image env dir img st1 w1 = (r2, w2)"
    by (cases "extract_image env dir img st1 w1")
  obtain st2 where r2: "r2 = Inr st2"
    using l2 s' by (cases r2) simp_all
  have s: "extract_image env dir img st1 w1 = (Inr st2, w2)"
    using s' r2 by simp
  have l3: "extract_images_loop env dir after st2 w2 = (Inr (image_map, cnt), w')"
    using l2 s by simp
  obtain image_data content where
    c: "strip_data_uri d = Inr image_data" "b64decode image_data = Inr content"
      "st2 = (AList.update i i (fst st1), snd st1 + 1)"
      "w2 = put_file env (truediv dir i) content w1"
    using extract_image_complete [OF s assms(3,4)] by blast
  have id: "image_data = data"
    using strip_data_uri_result [OF c(1)] by (simp add: data_def)
  have a5: "\<forall>img' \<in> set after. complete img' \<longrightarrow>
              resolve env (truediv dir (the (image_id img'))) \<noteq> resolve env (truediv dir i)"
    using assms(5) unfolding dir_def .
  have "files w' (resolve env (truediv dir i)) = files w2 (resolve env (truediv dir i))"
    by (rule extract_images_loop_files_other [OF l3 a5])
  also have "\<dots> = Some content"
    unfolding c(4) by (simp add: put_file_def)
  finally have f: "files w' (resolve env (truediv dir i)) = Some content" .
  have "map_of (fst st2) i = Some i"
    unfolding c(3) by (simp add: update_conv')
  then have "map_of (fst (image_map, cnt)) i = Some i"
    by (rule extract_images_loop_binding [OF l3])
  then have m: "map_of image_map i = Some i"
    by simp
  have "list_all (\<lambda>p. fst p = snd p) (fst ([] :: image_map, 0 :: nat))"
    by simp
  then have "list_all (\<lambda>p. fst p = snd p) (fst st1)"
    by (rule extract_images_loop_identity_map [OF l1])
  then have "list_all (\<lambda>p. fst p = snd p) (fst st2)"
    by (rule extract_image_identity_map [OF s])
  then have "list_all (\<lambda>p. fst p = snd p) (fst (image_map, cnt))"
    by (rule extract_images_loop_identity_map [OF l3])
  then have e: "list_all (\<lambda>p. fst p = snd p) image_map"
    by simp
  have rt: "content = bs \<and> b64encode content = data" if "data = b64encode bs" for bs
    using that c(2) id by (simp add: b64decode_b64encode)
  have pl: "truediv dir i = Path (is_absolute dir) (parts dir @ [i])"
    if "CHR ''/'' \<notin> set i \<and> i \<noteq> [] \<and> i \<noteq> ''.''"
    using that by (intro truediv_plain_name) simp_all
  have "b64decode data = Inr content
        \<and> files w' (resolve env (truediv dir i)) = Some content
        \<and> (CHR ''/'' \<notin> set i \<and> i \<noteq> [] \<and> i \<noteq> ''.'' \<longrightarrow>
              truediv dir i = Path (is_absolute dir) (parts dir @ [i]))
        \<and> (\<forall>bs. data = b64encode bs \<longrightarrow> content = bs \<and> b64encode content = data)
        \<and> map_of image_map i = Some i
        \<and> (list_all (\<lambda>p. fst p = snd p) image_map)"
  proof (intro conjI allI impI)
    show "b64decode data = Inr content" using c(2) id by simp
    show "files w' (resolve env (truediv dir i)) = Some content" by (rule f)
    show "truediv dir i = Path (is_absolute dir) (parts dir @ [i])"
      if "CHR ''/'' \<notin> set i \<and> i \<noteq> [] \<and> i \<noteq> ''.''"
      using that by (rule pl)
    show "content = bs" if "data = b64encode bs" for bs
      using rt [OF that] by simp
    show "b64encode content = data" if "data = b64encode bs" for bs
      using rt [OF that] by blast
    show "map_of image_map i = Some i" by (rule m)
    show "list_all (\<lambda>p. fst p = snd p) image_map" by (rule e)
  qed
  then show ?thesis
    unfolding dir_def data_def by (rule exI [of _ content])
qed

theorem extract_writes_decoded_images_witness:
  "extract_images_to_dir plain_env
     \<lparr>pages = Some [\<lparr>markdown = Some ''![a](a.png)'',
        images = Some [\<lparr>image_id = Some ''a.png'',
                         image_base64 = Some (JString ''data:image/png;base64,QUJD'')\<rparr>,
                       \<lparr>image_id = Some ''../out/a.png'',
                         image_base64 = Some (JString ''data:image/png;base64,QUJF'')\<rparr>]\<rparr>]\<rparr>
     ''out'' empty_world
   = (Inr [(''a.png'', ''a.png''), (''../out/a.png'', ''../out/a.png'')],
      \<lparr>trace = [], files = (\<lambda>p. None)(Path False [''out'', ''a.png''] \<mapsto> ''ABE'')\<rparr>)
   \<and> resolve plain_env (truediv (Path_of ''out'') ''../out/a.png'')
       = Path False [''out'', ''a.png'']
   \<and> b64decode ''QUJF'' = Inr ''ABE''
   \<and> b64encode ''ABE'' = ''QUJF''"
proof -
  define r where "r = \<lparr>pages = Some [\<lparr>markdown = Some ''![a](a.png)'',
        images = Some [\<lparr>image_id = Some ''a.png'',
                         image_base64 = Some (JString ''data:image/png;base64,QUJD'')\<rparr>,
                       \<lparr>image_id = Some ''../out/a.png'',
                         image_base64 = Some (JString ''data:image/png;base64,QUJF'')\<rparr>]\<rparr>]\<rparr>"
  define img0 where "img0 = \<lparr>image_id = Some ''a.png'',
                         image_base64 = Some (JString ''data:image/png;base64,QUJD'')\<rparr>"
  define img where "img = \<lparr>image_id = Some ''../out/a.png'',
                         image_base64 = Some (JString ''data:image/png;base64,QUJF'')\<rparr>"
  have d: "b64decode ''QUJD'' = Inr ''ABC''" "b64decode ''QUJF'' = Inr ''ABE''"
    by code_simp+
  have e: "b64encode ''ABE'' = ''QUJF''"
    by code_simp
  have s: "strip_data_uri ''data:image/png;base64,QUJD'' = Inr ''QUJD''"
    "strip_data_uri ''data:image/png;base64,QUJF'' = Inr ''QUJF''"
    by code_simp+
  have p: "resolve plain_env (truediv (Path_of ''out'') ''a.png'') = Path False [''out'', ''a.png'']"
    "resolve plain_env (truediv (Path_of ''out'') ''../out/a.png'')
       = Path False [''out'', ''a.png'']"
    by (simp_all add: plain_env_def truediv_def Path_of_def)
  have o: "open_wb plain_env = (\<lambda>p. None)"
    by (simp add: plain_env_def working_env_def)
  have 1: "extract_images_to_dir plain_env r ''out'' empty_world
           = (Inr [(''a.png'', ''a.png''), (''../out/a.png'', ''../out/a.png'')],
              \<lparr>trace = [],
               files = (\<lambda>p. None)(Path False [''out'', ''a.png''] \<mapsto> ''ABE'')\<rparr>)"
    by (simp add: r_def extract_images_to_dir_def response_pages_def page_images_def
        extract_image_def s d o p empty_world_def put_file_def Let_def)
  have 2: "response_images r = [img0] @ img # []"
    by (simp add: r_def img_def img0_def response_images_def response_pages_def
        page_images_def)
  have 3: "image_id img = Some ''../out/a.png''"
    and 4: "image_base64 img = Some (JString ''data:image/png;base64,QUJF'')"
    by (simp_all add: img_def)
  have 5: "\<forall>img' \<in> set []. complete img' \<longrightarrow>
             resolve plain_env (truediv (Path_of ''out'') (the (image_id img')))
               \<noteq> resolve plain_env (truediv (Path_of ''out'') ''../out/a.png'')"
    by simp
  show ?thesis
    using extract_writes_decoded_images [OF 1 2 3 4 5] 1 d e p
    unfolding r_def by simp
qed

text \<open>
  C3 as stated fails in three ways. The data \<open>QR==\<close> decodes to the byte \<open>A\<close>, whose
  encoding is \<open>QQ==\<close>, not the data. The identifier \<open>/tmp/b.png\<close> is written to the
  absolute path \<open>/tmp/b.png\<close>, outside the target directory. The prefix of
  \<open>data:text/plain;base64,QQ==\<close> is not removed: the whole string is decoded, to sixteen
  bytes, where \<open>QQ==\<close> alone decodes to \<open>A\<close>.
\<close>

theorem extract_round_trip_counterexample:
  "files (snd (extract_images_to_dir working_env
       \<lparr>pages = Some [\<lparr>markdown = None,
          images = Some [\<lparr>image_id = Some ''a.png'', image_base64 = Some (JString ''QR=='')\<rparr>,
                         \<lparr>image_id = Some ''/tmp/b.png'', image_base64 = Some (JString ''QQ=='')\<rparr>,
                         \<lparr>image_id = Some ''c.png'',
                            image_base64 = Some (JString ''data:text/plain;base64,QQ=='')\<rparr>]\<rparr>]\<rparr>
       ''out'' empty_world))
     = ((\<lambda>p. None)
         (Path False [''out'', ''a.png''] \<mapsto> ''A'',
          Path True [''tmp'', ''b.png''] \<mapsto> ''A'',
          Path False [''out'', ''c.png''] \<mapsto>
            map char_of [117, 171, 90, 181, 236, 109, 254, 153, 90, 138, 118, 218, 177, 238,
              184, 65 :: nat]))
   \<and> b64encode ''A'' = ''QQ==''
   \<and> b64decode ''QQ=='' = Inr ''A''"
proof -
  have a: "b64decode ''QR=='' = Inr ''A''"
    by code_simp
  have b: "b64decode ''QQ=='' = Inr ''A''"
    by code_simp
  have c: "b64decode ''data:text/plain;base64,QQ==''
           = Inr (map char_of [117, 171, 90, 181, 236, 109, 254, 153, 90, 138, 118, 218, 177,
               238, 184, 65 :: nat])"
    by code_simp
  have e: "b64encode ''A'' = ''QQ==''"
    by code_simp
  have s: "strip_data_uri ''QR=='' = Inr ''QR=='' "
    "strip_data_uri ''QQ=='' = Inr ''QQ=='' "
    "strip_data_uri ''data:text/plain;base64,QQ=='' = Inr ''data:text/plain;base64,QQ=='' "
    by code_simp+
  have p: "truediv (Path_of ''out'') ''a.png'' = Path False [''out'', ''a.png'']"
    "truediv (Path_of ''out'') ''/tmp/b.png'' = Path True [''tmp'', ''b.png'']"
    "truediv (Path_of ''out'') ''c.png'' = Path False [''out'', ''c.png'']"
    by code_simp+
  have f: "files (snd (extract_images_to_dir working_env
       \<lparr>pages = Some [\<lparr>markdown = None,
          images = Some [\<lparr>image_id = Some ''a.png'', image_base64 = Some (JString ''QR=='')\<rparr>,
                         \<lparr>image_id = Some ''/tmp/b.png'', image_base64 = Some (JString ''QQ=='')\<rparr>,
                         \<lparr>image_id = Some ''c.png'',
                            image_base64 = Some (JString ''data:text/plain;base64,QQ=='')\<rparr>]\<rparr>]\<rparr>
       ''out'' empty_world))
     = ((\<lambda>p. None)
         (Path False [''out'', ''a.png''] \<mapsto> ''A'',
          Path True [''tmp'', ''b.png''] \<mapsto> ''A'',
          Path False [''out'', ''c.png''] \<mapsto>
            map char_of [117, 171, 90, 181, 236, 109, 254, 153, 90, 138, 118, 218, 177, 238,
              184, 65 :: nat]))"
    by (simp add: extract_images_to_dir_def response_pages_def page_images_def
        extract_image_def s a b c p working_env_def empty_world_def put_file_def Let_def)
  show ?thesis
    using f e b by (intro conjI)
qed

end
